theory Spec2Isabelle
  imports Main "HOL-Library.Word" "HOL-Library.Sublist"
begin

section \<open>The transaction engine of xbps-bin (bin/xbps-bin/install.c)\<close>

text \<open>
  The file holds two entry points, \<open>xbps_install_pkg\<close> and \<open>xbps_autoupdate_pkgs\<close>,
  which build a \<open>struct transaction\<close> and hand it to \<open>exec_transaction\<close>; that
  function reports the sizes, asks for confirmation, checks the hashes, unpacks and
  registers every package and then configures every package. Everything that touches
  the disk or the terminal is done by functions of libxbps and proplib, which are not
  part of the file: they are parameters of the model (the record \<open>collab\<close> below).
\<close>

subsection \<open>Constants of the C library\<close>

text \<open>
  The values of \<open>errno.h\<close> and \<open>stdlib.h\<close> on Linux. The code only compares return
  codes with them, so the model depends on their being different from 0 and from each
  other, not on the numbers.
\<close>

definition ENOENT :: int where "ENOENT = 2"
definition EAGAIN :: int where "EAGAIN = 11"
definition EINVAL :: int where "EINVAL = 22"
definition ERANGE :: int where "ERANGE = 34"
definition EXIT_SUCCESS :: int where "EXIT_SUCCESS = 0"
definition EXIT_FAILURE :: int where "EXIT_FAILURE = 1"

subsection \<open>Data\<close>

text \<open>The anonymous enum of the file: the two kinds of transaction.\<close>

datatype trans_type = TRANS_ONE | TRANS_ALL

text \<open>
  \<open>pkg_state_t\<close>. The file compares a state with \<open>XBPS_PKG_STATE_UNPACKED\<close> only,
  so every other state of libxbps is one value here.
\<close>

datatype pkg_state_t = NOT_UNPACKED | XBPS_PKG_STATE_UNPACKED

text \<open>
  A package dictionary of the "packages" array, with the keys the file reads.
  \<^item> \<open>filename_size\<close> is the key "filename-size". Both sizes are read with
    \<open>prop_dictionary_get_uint64\<close> into a variable that the loop sets to 0 before
    each read, so an absent key reads as 0: the field is 0 then.
  \<^item> \<open>essential\<close> is read with \<open>prop_dictionary_get_bool\<close> into a variable that
    lives across the iterations and is not reset: \<open>None\<close> is the absent key, which
    leaves the variable as the previous package set it.
  \<^item> \<open>state\<close> is what \<open>xbps_get_pkg_state_dictionary\<close> finds: \<open>None\<close> when
    the dictionary has no state that can be read (the call returns an error then).
  \<^item> The four strings are taken to be present, as the code takes them.
\<close>

record pkg_dict =
  pkgname :: string
  version :: string
  filename :: string
  repository :: string
  filename_size :: "64 word"
  installed_size :: "64 word"
  essential :: "bool option"
  state :: "pkg_state_t option"

text \<open>
  The transaction dictionary that \<open>xbps_get_pkg_props\<close> returns: the keys "origin",
  "packages" (\<open>None\<close> when \<open>xbps_get_array_iter_from_dict\<close> returns \<open>NULL\<close>) and
  "missing_deps" (the package name and version of each).
\<close>

record props_dict =
  origin :: "string option"
  packages :: "pkg_dict list option"
  missing_deps :: "(string \<times> string) list"

text \<open>
  \<open>struct transaction\<close>. \<open>iter\<close> is the array the iterator walks; \<open>dict\<close> is only
  asserted not to be \<open>NULL\<close> by \<open>exec_transaction\<close> and is left out. The two names
  are C pointers: \<open>None\<close> is \<open>NULL\<close>, which is what \<open>calloc\<close> leaves in a field that
  is never assigned.
\<close>

record transaction =
  iter :: "pkg_dict list"
  originpkgname :: "string option"
  curpkgname :: "string option"
  trans_type :: trans_type
  force :: bool
  update :: bool

text \<open>
  A call of a collaborator, with its arguments and what it returned. \<open>EvPkgList\<close>
  is the listing that the second loop of \<open>show_transaction_sizes\<close> prints (the
  description and the wrapped text); the other messages of the file are not modelled.
\<close>

datatype event =
    EvPkgList string string
  | EvHumanize "64 word" int
  | EvNoYes bool
  | EvCheckHash pkg_dict string int
  | EvRemove string string bool int
  | EvUnpack pkg_dict bool int
  | EvRegister pkg_dict bool int
  | EvSetState pkg_dict pkg_state_t int
  | EvConfigure string string int

text \<open>
  The collaborators. Each takes the calls made so far and its arguments and gives its
  return value, so a collaborator may answer differently each time it is called. The
  functions that the entry points call before any event (the lookups and the resolver)
  take their arguments only.
  \<^item> \<open>xbps_humanize_number\<close>: the byte count (cast to \<open>int64_t\<close>) to the return
    value, -1 on failure.
  \<^item> \<open>xbps_find_pkg_installed_from_plist\<close>: the installed dictionary or \<open>NULL\<close>.
  \<^item> \<open>xbps_get_pkg_props\<close>: the dictionary or \<open>NULL\<close>, and \<open>errno\<close> after the call.
  \<^item> \<open>xbps_prepare_regpkgdb_dict\<close>: \<open>NULL\<close>, or the "packages" array of the
    dictionary (\<open>None\<close> inside when no iterator can be made).
  \<^item> \<open>calloc_ok\<close>: whether \<open>calloc\<close> returns memory.
\<close>

record collab =
  xbps_humanize_number :: "event list \<Rightarrow> 64 word \<Rightarrow> int"
  xbps_noyes :: "event list \<Rightarrow> bool"
  xbps_check_pkg_file_hash :: "event list \<Rightarrow> pkg_dict \<Rightarrow> string \<Rightarrow> int"
  xbps_find_pkg_installed_from_plist :: "event list \<Rightarrow> string \<Rightarrow> pkg_dict option"
  xbps_remove_pkg :: "event list \<Rightarrow> string \<Rightarrow> string \<Rightarrow> bool \<Rightarrow> int"
  xbps_unpack_binary_pkg :: "event list \<Rightarrow> pkg_dict \<Rightarrow> bool \<Rightarrow> int"
  xbps_register_pkg :: "event list \<Rightarrow> pkg_dict \<Rightarrow> bool \<Rightarrow> int"
  xbps_set_pkg_state_rv :: "event list \<Rightarrow> pkg_dict \<Rightarrow> pkg_state_t \<Rightarrow> int"
  xbps_configure_pkg :: "event list \<Rightarrow> string \<Rightarrow> string \<Rightarrow> int"
  xbps_find_new_pkg :: "string \<Rightarrow> pkg_dict \<Rightarrow> int"
  xbps_prepare_pkg :: "string \<Rightarrow> int"
  xbps_get_pkg_props :: "props_dict option \<times> int"
  xbps_sort_pkg_deps :: "props_dict \<Rightarrow> int \<times> props_dict"
  xbps_prepare_regpkgdb_dict :: "pkg_dict list option option"
  xbps_prepare_repolist_data :: int
  calloc_ok :: bool

text \<open>What stops a function besides a return: \<open>strcmp\<close> on a \<open>NULL\<close> pointer.\<close>

datatype fault = NullPointer

subsection \<open>The state of a package dictionary\<close>

text \<open>
  Modelled from the spec: \<open>xbps_get_pkg_state_dictionary\<close> is a function of libxbps,
  not of this file. The spec gives every entry a \<open>lifecycle_state\<close> that the apply
  phase reads; the call fails (a return value other than 0) when there is none to read.
\<close>

definition xbps_get_pkg_state_dictionary :: "pkg_dict \<Rightarrow> pkg_state_t option" where
  "xbps_get_pkg_state_dictionary obj = state obj"

text \<open>
  Modelled from the spec: \<open>xbps_set_pkg_state_dictionary\<close> is a function of libxbps,
  not of this file. The spec: \<open>set_lifecycle_state(entry, state) -> ok | error\<close>, and
  "on success, persist \<open>lifecycle_state = UNPACKED\<close> for this entry (external
  collaborator writes this)". The return value is the collaborator's; the dictionary is
  written when it is 0 and left as it was otherwise.
\<close>

definition xbps_set_pkg_state_dictionary ::
  "collab \<Rightarrow> event list \<Rightarrow> pkg_dict \<Rightarrow> pkg_state_t \<Rightarrow> int \<times> pkg_dict" where
  "xbps_set_pkg_state_dictionary c h obj st =
     (let rv = xbps_set_pkg_state_rv c h obj st
      in (rv, if rv = 0 then obj\<lparr>state := Some st\<rparr> else obj))"

subsection \<open>check_pkg_hashes (lines 86-120)\<close>

text \<open>
  Every function below takes the calls made before it (\<open>h\<close>, which the collaborators
  see) and returns, with its result, the calls it made itself, in order.

  The loop over the iterator. Every loop of the file starts at the first package: a loop
  that runs to its end resets the iterator, and a loop that returns early makes
  \<open>exec_transaction\<close> return.
\<close>

fun check_pkg_hashes :: "collab \<Rightarrow> pkg_dict list \<Rightarrow> event list \<Rightarrow> int \<times> event list" where
  "check_pkg_hashes c [] h = (0, [])"
| "check_pkg_hashes c (obj # objs) h =
     (case xbps_get_pkg_state_dictionary obj of
        None \<Rightarrow> (EINVAL, [])
      | Some st \<Rightarrow>
          if st = XBPS_PKG_STATE_UNPACKED then check_pkg_hashes c objs h
          else
            let repoloc = repository obj;
                rv = xbps_check_pkg_file_hash c h obj repoloc;
                ev = EvCheckHash obj repoloc rv
            in if rv \<noteq> 0 \<and> rv \<noteq> ERANGE then (-1, [ev])
               else if rv \<noteq> 0 \<and> rv = ERANGE then (-1, [ev])
               else (case check_pkg_hashes c objs (h @ [ev]) of
                       (rv', evs) \<Rightarrow> (rv', ev # evs)))"

subsection \<open>show_transaction_sizes (lines 122-188)\<close>

text \<open>The first loop: the two \<open>uint64_t\<close> sums, which wrap around at \<open>2 ^ 64\<close>.\<close>

fun transaction_sizes :: "pkg_dict list \<Rightarrow> 64 word \<Rightarrow> 64 word \<Rightarrow> 64 word \<times> 64 word" where
  "transaction_sizes [] dlsize instsize = (dlsize, instsize)"
| "transaction_sizes (obj # objs) dlsize instsize =
     transaction_sizes objs (dlsize + filename_size obj) (instsize + installed_size obj)"

text \<open>
  The second loop: the names, wrapped at 80 columns. \<open>cols\<close> is a \<open>size_t\<close> that
  counts characters of one line and stays far from its bound.
\<close>

fun pkg_list_text :: "pkg_dict list \<Rightarrow> nat \<Rightarrow> bool \<Rightarrow> string" where
  "pkg_list_text [] cols first = []"
| "pkg_list_text (obj # objs) cols first =
     (let cols1 = cols + (length (pkgname obj) + length (version obj) + 4);
          item = pkgname obj @ ''-'' @ version obj @ '' ''
      in if cols1 \<le> 80
         then (if first = False then ''  '' else []) @ item @ pkg_list_text objs cols1 True
         else [CHR 0x0A] @ ''  '' @ item @
              pkg_list_text objs (length (pkgname obj) + length (version obj) + 4) first)"

definition show_transaction_sizes ::
  "collab \<Rightarrow> pkg_dict list \<Rightarrow> string \<Rightarrow> event list \<Rightarrow> int \<times> event list" where
  "show_transaction_sizes c objs descr h =
     (case transaction_sizes objs 0 0 of (dlsize, instsize) \<Rightarrow>
        let ev1 = EvPkgList descr (pkg_list_text objs 0 False);
            rv1 = xbps_humanize_number c (h @ [ev1]) dlsize;
            ev2 = EvHumanize dlsize rv1
        in if rv1 = -1 then (-1, [ev1, ev2])
           else
             let rv2 = xbps_humanize_number c (h @ [ev1, ev2]) instsize;
                 ev3 = EvHumanize instsize rv2
             in if rv2 = -1 then (-1, [ev1, ev2, ev3]) else (0, [ev1, ev2, ev3]))"

subsection \<open>exec_transaction (lines 276-410)\<close>

text \<open>
  The body of the first loop (lines 319-391) for one package, in the four parts it is
  written in. \<open>strcmp\<close> is called on \<open>originpkgname\<close> and \<open>curpkgname\<close>, which may
  be \<open>NULL\<close>; \<open>&&\<close> and \<open>||\<close> evaluate their right side only when they have to.
\<close>

text \<open>Lines 324-326: the new value of \<open>isdep\<close>.\<close>

definition mark_isdep :: "transaction \<Rightarrow> pkg_dict \<Rightarrow> bool \<Rightarrow> fault + bool" where
  "mark_isdep tx obj isdep =
     (if trans_type tx = TRANS_ONE
      then (case originpkgname tx of
              None \<Rightarrow> Inl NullPointer
            | Some orig \<Rightarrow> Inr (if orig \<noteq> pkgname obj then True else isdep))
      else Inr isdep)"

text \<open>Lines 338-340: whether the installed package is looked up.\<close>

definition is_update_of :: "transaction \<Rightarrow> pkg_dict \<Rightarrow> fault + bool" where
  "is_update_of tx obj =
     (if trans_type tx = TRANS_ALL then Inr True
      else if update tx
      then (case curpkgname tx of
              None \<Rightarrow> Inl NullPointer
            | Some cur \<Rightarrow> Inr (cur = pkgname obj))
      else Inr False)"

text \<open>
  Lines 341-364: look the installed package up and remove it unless the new one is
  essential. \<open>Some rv\<close> is a return from \<open>exec_transaction\<close>.
\<close>

definition remove_installed ::
  "collab \<Rightarrow> pkg_dict \<Rightarrow> bool \<Rightarrow> event list \<Rightarrow> int option \<times> event list" where
  "remove_installed c obj ess h =
     (case xbps_find_pkg_installed_from_plist c h (pkgname obj) of
        None \<Rightarrow> (Some EINVAL, [])
      | Some instpkgd \<Rightarrow>
          if ess = False
          then (let rv = xbps_remove_pkg c h (pkgname obj) (version obj) True;
                    ev = EvRemove (pkgname obj) (version obj) True rv
                in if rv \<noteq> 0 then (Some rv, [ev]) else (None, [ev]))
          else (None, []))"

text \<open>
  Lines 366-391: unpack, register, clear \<open>isdep\<close>, set the state. The result is the
  return value if there is one, the dictionary, \<open>isdep\<close> and the calls.
\<close>

definition unpack_register ::
  "collab \<Rightarrow> pkg_dict \<Rightarrow> bool \<Rightarrow> bool \<Rightarrow> event list \<Rightarrow>
     int option \<times> pkg_dict \<times> bool \<times> event list" where
  "unpack_register c obj ess isdep h =
     (let rv1 = xbps_unpack_binary_pkg c h obj ess;
          ev1 = EvUnpack obj ess rv1
      in if rv1 \<noteq> 0 then (Some rv1, obj, isdep, [ev1])
         else
           (let rv2 = xbps_register_pkg c (h @ [ev1]) obj isdep;
                ev2 = EvRegister obj isdep rv2
            in if rv2 \<noteq> 0 then (Some rv2, obj, isdep, [ev1, ev2])
               else
                 (case xbps_set_pkg_state_dictionary c (h @ [ev1, ev2]) obj
                         XBPS_PKG_STATE_UNPACKED of
                    (rv3, obj') \<Rightarrow>
                      (let ev3 = EvSetState obj XBPS_PKG_STATE_UNPACKED rv3
                       in if rv3 \<noteq> 0 then (Some rv3, obj', False, [ev1, ev2, ev3])
                          else (None, obj', False, [ev1, ev2, ev3])))))"

text \<open>
  The whole body. It takes the variables \<open>essential\<close> and \<open>isdep\<close>, which live across
  the iterations. The first component of the result is \<open>Some r\<close> when the body returns
  from \<open>exec_transaction\<close> and \<open>None\<close> when the loop goes on (at the end of the body,
  or at the \<open>continue\<close> of a package that is unpacked already); then come the
  dictionary, the two variables and the calls.
\<close>

definition unpack_one ::
  "collab \<Rightarrow> transaction \<Rightarrow> pkg_dict \<Rightarrow> bool \<Rightarrow> bool \<Rightarrow> event list \<Rightarrow>
     (fault + int) option \<times> pkg_dict \<times> bool \<times> bool \<times> event list" where
  "unpack_one c tx obj ess0 isdep0 h =
     (let ess = (case essential obj of Some b \<Rightarrow> b | None \<Rightarrow> ess0)
      in case mark_isdep tx obj isdep0 of
           Inl f \<Rightarrow> (Some (Inl f), obj, ess, isdep0, [])
         | Inr isdep \<Rightarrow>
            (case xbps_get_pkg_state_dictionary obj of
               None \<Rightarrow> (Some (Inr EINVAL), obj, ess, isdep, [])
             | Some st \<Rightarrow>
                if st = XBPS_PKG_STATE_UNPACKED then (None, obj, ess, isdep, [])
                else
                  (case is_update_of tx obj of
                     Inl f \<Rightarrow> (Some (Inl f), obj, ess, isdep, [])
                   | Inr upd \<Rightarrow>
                      (case (if upd then remove_installed c obj ess h else (None, [])) of
                         (Some rv, evs1) \<Rightarrow> (Some (Inr rv), obj, ess, isdep, evs1)
                       | (None, evs1) \<Rightarrow>
                          (case unpack_register c obj ess isdep (h @ evs1) of
                             (None, obj', isdep', evs2) \<Rightarrow>
                               (None, obj', ess, isdep', evs1 @ evs2)
                           | (Some rv, obj', isdep', evs2) \<Rightarrow>
                               (Some (Inr rv), obj', ess, isdep', evs1 @ evs2))))))"

text \<open>
  The first loop (lines 318-392). The result is the return value (\<open>None\<close> when the loop
  ran to its end), the array as the loop left it and the calls made.
\<close>

fun unpack_loop ::
  "collab \<Rightarrow> transaction \<Rightarrow> pkg_dict list \<Rightarrow> bool \<Rightarrow> bool \<Rightarrow> event list \<Rightarrow>
     (fault + int) option \<times> pkg_dict list \<times> event list" where
  "unpack_loop c tx [] ess isdep h = (None, [], [])"
| "unpack_loop c tx (obj # objs) ess isdep h =
     (case unpack_one c tx obj ess isdep h of
        (Some r, obj', ess', isdep', evs1) \<Rightarrow> (Some r, obj' # objs, evs1)
      | (None, obj', ess', isdep', evs1) \<Rightarrow>
          (case unpack_loop c tx objs ess' isdep' (h @ evs1) of
             (r, objs', evs2) \<Rightarrow> (r, obj' # objs', evs1 @ evs2)))"

text \<open>The second loop (lines 397-407): configure every package of the array.\<close>

fun configure_loop :: "collab \<Rightarrow> pkg_dict list \<Rightarrow> event list \<Rightarrow> int \<times> event list" where
  "configure_loop c [] h = (0, [])"
| "configure_loop c (obj # objs) h =
     (let rv = xbps_configure_pkg c h (pkgname obj) (version obj);
          ev = EvConfigure (pkgname obj) (version obj) rv
      in if rv \<noteq> 0 then (rv, [ev])
         else (case configure_loop c objs (h @ [ev]) of
                 (rv', evs) \<Rightarrow> (rv', ev # evs)))"

text \<open>
  \<open>exec_transaction\<close>: the return value (or the fault), the array as it is left, and
  the calls made.
\<close>

definition exec_transaction ::
  "collab \<Rightarrow> transaction \<Rightarrow> event list \<Rightarrow> (fault + int) \<times> pkg_dict list \<times> event list" where
  "exec_transaction c tx h =
     (case show_transaction_sizes c (iter tx)
             (if trans_type tx = TRANS_ALL then ''updated'' else ''installed'') h of
        (rv1, evs1) \<Rightarrow>
          if rv1 \<noteq> 0 then (Inr rv1, iter tx, evs1)
          else if force tx = False \<and> xbps_noyes c (h @ evs1) = False
          then (Inr 0, iter tx, evs1 @ [EvNoYes False])
          else
            let evs2 = evs1 @ (if force tx = False then [EvNoYes True] else [])
            in case check_pkg_hashes c (iter tx) (h @ evs2) of
                 (rv3, evs3) \<Rightarrow>
                   if rv3 \<noteq> 0 then (Inr rv3, iter tx, evs2 @ evs3)
                   else
                     (case unpack_loop c tx (iter tx) False False (h @ evs2 @ evs3) of
                        (Some r, objs, evs4) \<Rightarrow> (r, objs, evs2 @ evs3 @ evs4)
                      | (None, objs, evs4) \<Rightarrow>
                          (case configure_loop c objs (h @ evs2 @ evs3 @ evs4) of
                             (rv5, evs5) \<Rightarrow> (Inr rv5, objs, evs2 @ evs3 @ evs4 @ evs5))))"

subsection \<open>cleanup and the entry points\<close>

text \<open>
  \<open>cleanup\<close> releases the repository and database data and calls \<open>exit\<close>: its value
  is the exit status of the process, and nothing runs after it.
\<close>

definition cleanup :: "int \<Rightarrow> int" where
  "cleanup rv = (if rv = 0 then EXIT_SUCCESS else EXIT_FAILURE)"

text \<open>
  \<open>xbps_install_pkg\<close> (lines 190-274): the exit status of the process (or the fault)
  and the calls \<open>exec_transaction\<close> made. The first part is everything before \<open>calloc\<close>: \<open>Inl\<close> is the
  exit status of a \<open>cleanup\<close> called there, \<open>Inr\<close> the value of \<open>rv\<close> with which the
  function goes on. \<open>curpkgname\<close> is assigned nowhere in the file, so it is \<open>NULL\<close>.
\<close>

definition install_pkg_prepare :: "collab \<Rightarrow> string \<Rightarrow> bool \<Rightarrow> int + int" where
  "install_pkg_prepare c pkg update' =
     (let rv = 0;
          pkgd = xbps_find_pkg_installed_from_plist c [] pkg
      in if update'
         then (case pkgd of
                 Some d \<Rightarrow>
                   let rv = xbps_find_new_pkg c pkg d
                   in if rv = 0 then Inl (cleanup rv) else Inr rv
               | None \<Rightarrow> Inl (cleanup rv))
         else (case pkgd of
                 Some d \<Rightarrow> Inl (cleanup rv)
               | None \<Rightarrow>
                   let rv = xbps_prepare_pkg c pkg
                   in if rv \<noteq> 0 \<and> rv = EAGAIN then Inl (cleanup rv)
                      else if rv \<noteq> 0 \<and> rv \<noteq> ENOENT then Inl (cleanup rv)
                      else Inr rv))"

definition xbps_install_pkg ::
  "collab \<Rightarrow> string \<Rightarrow> bool \<Rightarrow> bool \<Rightarrow> (fault + int) \<times> event list" where
  "xbps_install_pkg c pkg force' update' =
     (case install_pkg_prepare c pkg update' of
        Inl status \<Rightarrow> (Inr status, [])
      | Inr rv \<Rightarrow>
          if \<not> calloc_ok c then (Inr (cleanup rv), [])
          else
            (case fst (xbps_get_pkg_props c) of
               None \<Rightarrow> (Inr (cleanup rv), [])
             | Some d \<Rightarrow>
                 if length (missing_deps d) > 0 then (Inr (cleanup rv), [])
                 else
                   (case packages d of
                      None \<Rightarrow> (Inr (cleanup rv), [])
                    | Some pkgs \<Rightarrow>
                        (case exec_transaction c
                                \<lparr>iter = pkgs, originpkgname = origin d, curpkgname = None,
                                 trans_type = TRANS_ONE, force = force', update = update'\<rparr> [] of
                           (Inl f, objs, h) \<Rightarrow> (Inl f, h)
                         | (Inr rv, objs, h) \<Rightarrow> (Inr (cleanup rv), h)))))"

text \<open>
  The loop of \<open>xbps_autoupdate_pkgs\<close> over the installed packages (lines 453-460):
  the first return value of \<open>xbps_find_new_pkg\<close> that is not 0, or 0.
\<close>

fun find_new_pkgs :: "collab \<Rightarrow> pkg_dict list \<Rightarrow> int \<Rightarrow> int" where
  "find_new_pkgs c [] rv = rv"
| "find_new_pkgs c (obj # objs) rv =
     (let rv = xbps_find_new_pkg c (pkgname obj) obj
      in if rv \<noteq> 0 then rv else find_new_pkgs c objs rv)"

text \<open>
  \<open>xbps_autoupdate_pkgs\<close> (lines 412-506). Neither name of the transaction is
  assigned, so both are \<open>NULL\<close>.
\<close>

definition xbps_autoupdate_pkgs :: "collab \<Rightarrow> bool \<Rightarrow> (fault + int) \<times> event list" where
  "xbps_autoupdate_pkgs c force' =
     (let rv = 0
      in case xbps_prepare_regpkgdb_dict c of
           None \<Rightarrow> (Inr (cleanup rv), [])
         | Some regpkgs \<Rightarrow>
             let rv = xbps_prepare_repolist_data c
             in if rv \<noteq> 0 then (Inr (cleanup rv), [])
                else if \<not> calloc_ok c then (Inr (cleanup rv), [])
                else
                  (case regpkgs of
                     None \<Rightarrow> (Inr (cleanup EINVAL), [])
                   | Some installed \<Rightarrow>
                       let rv = find_new_pkgs c installed rv
                       in if rv \<noteq> 0 then (Inr (cleanup rv), [])
                          else
                            (case fst (xbps_get_pkg_props c) of
                               None \<Rightarrow> (Inr (cleanup rv), [])
                             | Some d \<Rightarrow>
                                 (case xbps_sort_pkg_deps c d of
                                    (rv, d') \<Rightarrow>
                                      if rv \<noteq> 0 then (Inr (cleanup rv), [])
                                      else
                                        (case packages d' of
                                           None \<Rightarrow> (Inr (cleanup rv), [])
                                         | Some pkgs \<Rightarrow>
                                             (case exec_transaction c
                                                     \<lparr>iter = pkgs, originpkgname = None,
                                                      curpkgname = None, trans_type = TRANS_ALL,
                                                      force = force', update = True\<rparr> [] of
                                                (Inl f, objs, h) \<Rightarrow> (Inl f, h)
                                              | (Inr rv, objs, h) \<Rightarrow> (Inr (cleanup rv), h)))))))"

subsection \<open>Reading a run\<close>

text \<open>
  The return value of a call (0 for the listing and for the prompt, which have none).
\<close>

fun call_rv :: "event \<Rightarrow> int" where
  "call_rv (EvPkgList descr text) = 0"
| "call_rv (EvHumanize n rv) = rv"
| "call_rv (EvNoYes answer) = 0"
| "call_rv (EvCheckHash obj repoloc rv) = rv"
| "call_rv (EvRemove n v keep rv) = rv"
| "call_rv (EvUnpack obj ess rv) = rv"
| "call_rv (EvRegister obj isdep rv) = rv"
| "call_rv (EvSetState obj st rv) = rv"
| "call_rv (EvConfigure n v rv) = rv"

text \<open>
  The part of \<open>exec_transaction\<close> that makes a call, in the order of the code:
  0 the summary, 1 the prompt, 2 the hash check, 3 the first loop (remove, unpack,
  register, set the state), 4 the second loop (configure).
\<close>

fun phase_of :: "event \<Rightarrow> nat" where
  "phase_of (EvPkgList descr text) = 0"
| "phase_of (EvHumanize n rv) = 0"
| "phase_of (EvNoYes answer) = 1"
| "phase_of (EvCheckHash obj repoloc rv) = 2"
| "phase_of (EvRemove n v keep rv) = 3"
| "phase_of (EvUnpack obj ess rv) = 3"
| "phase_of (EvRegister obj isdep rv) = 3"
| "phase_of (EvSetState obj st rv) = 3"
| "phase_of (EvConfigure n v rv) = 4"


text \<open>
  A call of the first loop is about a dictionary: it removes the package of that name
  and version (keeping the configuration files), or unpacks, registers or sets the
  state of the dictionary itself.
\<close>

fun about :: "event \<Rightarrow> pkg_dict \<Rightarrow> bool" where
  "about (EvRemove n v keep rv) obj = (n = pkgname obj \<and> v = version obj \<and> keep)"
| "about (EvUnpack obj' ess rv) obj = (obj' = obj)"
| "about (EvRegister obj' isdep rv) obj = (obj' = obj)"
| "about (EvSetState obj' st rv) obj = (obj' = obj \<and> st = XBPS_PKG_STATE_UNPACKED)"
| "about ev obj = False"

text \<open>The dictionaries whose hash a run checked, in order.\<close>

fun hashed :: "event list \<Rightarrow> pkg_dict list" where
  "hashed [] = []"
| "hashed (EvCheckHash obj repoloc rv # evs) = obj # hashed evs"
| "hashed (ev # evs) = hashed evs"

text \<open>The names and versions a run configured, in order.\<close>

fun configured :: "event list \<Rightarrow> (string \<times> string) list" where
  "configured [] = []"
| "configured (EvConfigure n v rv # evs) = (n, v) # configured evs"
| "configured (ev # evs) = configured evs"

text \<open>The dictionaries a run registered, each with the flag it was registered with.\<close>

fun registered :: "event list \<Rightarrow> (pkg_dict \<times> bool) list" where
  "registered [] = []"
| "registered (EvRegister obj isdep rv # evs) = (obj, isdep) # registered evs"
| "registered (ev # evs) = registered evs"

text \<open>A dictionary that is not unpacked yet: the hash check and the first loop skip the others.\<close>

definition not_unpacked :: "pkg_dict \<Rightarrow> bool" where
  "not_unpacked obj = (state obj \<noteq> Some XBPS_PKG_STATE_UNPACKED)"

text \<open>The byte counts a run passed to \<open>xbps_humanize_number\<close>, in order.\<close>

fun humanized :: "event list \<Rightarrow> 64 word list" where
  "humanized [] = []"
| "humanized (EvHumanize n rv # evs) = n # humanized evs"
| "humanized (ev # evs) = humanized evs"

text \<open>The removals a run asked for: name, version and the flag that keeps the configuration.\<close>

fun removed :: "event list \<Rightarrow> (string \<times> string \<times> bool) list" where
  "removed [] = []"
| "removed (EvRemove n v keep rv # evs) = (n, v, keep) # removed evs"
| "removed (ev # evs) = removed evs"

text \<open>The name and version of every dictionary of an array, in order.\<close>

definition names :: "pkg_dict list \<Rightarrow> (string \<times> string) list" where
  "names objs = map (\<lambda>obj. (pkgname obj, version obj)) objs"

subsection \<open>Collaborators and packages for the examples\<close>

text \<open>
  Collaborators under which every call succeeds, the user answers yes and nothing is
  installed.
\<close>

definition ok_collab :: collab where
  "ok_collab =
     \<lparr>xbps_humanize_number = (\<lambda>h n. 0),
      xbps_noyes = (\<lambda>h. True),
      xbps_check_pkg_file_hash = (\<lambda>h obj repoloc. 0),
      xbps_find_pkg_installed_from_plist = (\<lambda>h n. None),
      xbps_remove_pkg = (\<lambda>h n v keep. 0),
      xbps_unpack_binary_pkg = (\<lambda>h obj ess. 0),
      xbps_register_pkg = (\<lambda>h obj isdep. 0),
      xbps_set_pkg_state_rv = (\<lambda>h obj st. 0),
      xbps_configure_pkg = (\<lambda>h n v. 0),
      xbps_find_new_pkg = (\<lambda>n d. 0),
      xbps_prepare_pkg = (\<lambda>n. 0),
      xbps_get_pkg_props = (None, 0),
      xbps_sort_pkg_deps = (\<lambda>d. (0, d)),
      xbps_prepare_regpkgdb_dict = None,
      xbps_prepare_repolist_data = 0,
      calloc_ok = True\<rparr>"

text \<open>A package that is not unpacked, with no "essential" key.\<close>

definition mkpkg :: "string \<Rightarrow> string \<Rightarrow> pkg_dict" where
  "mkpkg n v =
     \<lparr>pkgname = n, version = v, filename = n @ ''.xbps'', repository = ''/repo'',
      filename_size = 100, installed_size = 300, essential = None,
      state = Some NOT_UNPACKED\<rparr>"

text \<open>The transaction that \<open>xbps_install_pkg\<close> builds for the package "foo".\<close>

definition trans_one :: "pkg_dict list \<Rightarrow> bool \<Rightarrow> transaction" where
  "trans_one objs force' =
     \<lparr>iter = objs, originpkgname = Some ''foo'', curpkgname = None,
      trans_type = TRANS_ONE, force = force', update = False\<rparr>"

text \<open>The transaction that \<open>xbps_autoupdate_pkgs\<close> builds.\<close>

definition trans_all :: "pkg_dict list \<Rightarrow> bool \<Rightarrow> transaction" where
  "trans_all objs force' =
     \<lparr>iter = objs, originpkgname = None, curpkgname = None,
      trans_type = TRANS_ALL, force = force', update = True\<rparr>"

text \<open>
  A transaction dictionary with the one package "foo", and collaborators under which
  the resolver returns it, no package is installed, and the user answers no.
\<close>

definition foo_props :: props_dict where
  "foo_props =
     \<lparr>origin = Some ''foo'', packages = Some [mkpkg ''foo'' ''1.0''], missing_deps = []\<rparr>"

definition declining_collab :: collab where
  "declining_collab =
     ok_collab\<lparr>xbps_noyes := (\<lambda>h. False),
               xbps_get_pkg_props := (Some foo_props, 0),
               xbps_prepare_regpkgdb_dict := Some (Some [])\<rparr>"

text \<open>
  Collaborators under which the hash of the package "a" does not match, under which
  unpacking "a" fails, under which configuring "a" fails, and under which every
  package is found installed in version 0.9.
\<close>

definition mismatch_collab :: collab where
  "mismatch_collab =
     ok_collab\<lparr>xbps_check_pkg_file_hash :=
                 (\<lambda>h obj repoloc. if pkgname obj = ''a'' then ERANGE else 0)\<rparr>"

definition unpack_fails_collab :: collab where
  "unpack_fails_collab =
     ok_collab\<lparr>xbps_unpack_binary_pkg :=
                 (\<lambda>h obj ess. if pkgname obj = ''a'' then 5 else 0)\<rparr>"

definition configure_fails_collab :: collab where
  "configure_fails_collab =
     ok_collab\<lparr>xbps_configure_pkg := (\<lambda>h n v. if n = ''a'' then 5 else 0)\<rparr>"

definition installed_collab :: collab where
  "installed_collab =
     ok_collab\<lparr>xbps_find_pkg_installed_from_plist := (\<lambda>h n. Some (mkpkg n ''0.9''))\<rparr>"

text \<open>
  Collaborators for the update of "foo": it is installed, \<open>xbps_find_new_pkg\<close> does
  not return 0 for it, and the resolver returns the transaction dictionary of "foo".
\<close>

definition update_collab :: collab where
  "update_collab =
     installed_collab\<lparr>xbps_find_new_pkg := (\<lambda>n d. 1),
                      xbps_get_pkg_props := (Some foo_props, 0)\<rparr>"

text \<open>A package of \<open>2 ^ 63\<close> bytes, packed and installed.\<close>

definition huge_pkg :: "string \<Rightarrow> pkg_dict" where
  "huge_pkg n =
     (mkpkg n ''1'')\<lparr>filename_size := 9223372036854775808,
                     installed_size := 9223372036854775808\<rparr>"

section \<open>Properties of the parts\<close>

text \<open>
  What each function of the file returns and calls, proved once and used by the
  theorems of the next section.
\<close>

lemma transaction_sizes_sum:
  "transaction_sizes objs dl inst =
     (dl + sum_list (map filename_size objs), inst + sum_list (map installed_size objs))"
  by (induction objs arbitrary: dl inst) (simp_all add: add.assoc)

lemma show_transaction_sizes_calls:
  assumes "show_transaction_sizes c objs descr h = (rv, evs)"
  shows "(\<forall>e\<in>set evs. phase_of e = 0) \<and> (rv = 0 \<or> rv = -1)"
  using assms
  by (auto simp: show_transaction_sizes_def Let_def split: prod.splits if_splits)

lemma check_pkg_hashes_phase:
  "check_pkg_hashes c objs h = (rv, evs) \<Longrightarrow> e \<in> set evs \<Longrightarrow> phase_of e = 2"
  by (induction objs arbitrary: h rv evs)
     (auto simp: xbps_get_pkg_state_dictionary_def Let_def split: option.splits if_splits prod.splits)

lemma check_pkg_hashes_prefix:
  "check_pkg_hashes c objs h = (rv, evs) \<Longrightarrow> prefix (hashed evs) (filter not_unpacked objs)"
  by (induction objs arbitrary: h rv evs)
     (auto simp: xbps_get_pkg_state_dictionary_def not_unpacked_def Let_def
           split: option.splits if_splits prod.splits)

lemma check_pkg_hashes_ok:
  "check_pkg_hashes c objs h = (0, evs) \<Longrightarrow>
     hashed evs = filter not_unpacked objs \<and> (\<forall>e\<in>set evs. call_rv e = 0)"
  by (induction objs arbitrary: h evs)
     (auto simp: xbps_get_pkg_state_dictionary_def not_unpacked_def Let_def EINVAL_def
           split: option.splits if_splits prod.splits)

lemma check_pkg_hashes_butlast:
  "check_pkg_hashes c objs h = (rv, evs) \<Longrightarrow> e \<in> set (butlast evs) \<Longrightarrow> call_rv e = 0"
proof (induction objs arbitrary: h rv evs)
  case Nil
  then show ?case by simp
next
  case (Cons obj objs)
  then show ?case
    by (auto simp: xbps_get_pkg_state_dictionary_def Let_def
           split: option.splits if_splits prod.splits)
qed

lemma check_pkg_hashes_failed:
  "check_pkg_hashes c objs h = (rv, evs) \<Longrightarrow> e \<in> set evs \<Longrightarrow> call_rv e \<noteq> 0 \<Longrightarrow> rv = -1"
  by (induction objs arbitrary: h rv evs)
     (auto simp: xbps_get_pkg_state_dictionary_def Let_def split: option.splits if_splits prod.splits)

lemma configure_loop_phase:
  "configure_loop c objs h = (rv, evs) \<Longrightarrow> e \<in> set evs \<Longrightarrow> phase_of e = 4"
  by (induction objs arbitrary: h rv evs)
     (auto simp: Let_def split: if_splits prod.splits)

lemma configure_loop_prefix:
  "configure_loop c objs h = (rv, evs) \<Longrightarrow>
     prefix (configured evs) (map (\<lambda>obj. (pkgname obj, version obj)) objs)"
  by (induction objs arbitrary: h rv evs)
     (auto simp: Let_def split: if_splits prod.splits)

lemma configure_loop_ok:
  "configure_loop c objs h = (0, evs) \<Longrightarrow>
     configured evs = map (\<lambda>obj. (pkgname obj, version obj)) objs \<and>
     (\<forall>e\<in>set evs. call_rv e = 0)"
  by (induction objs arbitrary: h evs)
     (auto simp: Let_def split: if_splits prod.splits)

lemma configure_loop_butlast:
  "configure_loop c objs h = (rv, evs) \<Longrightarrow> e \<in> set (butlast evs) \<Longrightarrow> call_rv e = 0"
  by (induction objs arbitrary: h rv evs)
     (auto simp: Let_def split: if_splits prod.splits)

lemma configure_loop_failed:
  "configure_loop c objs h = (rv, evs) \<Longrightarrow> e \<in> set evs \<Longrightarrow> call_rv e \<noteq> 0 \<Longrightarrow>
     rv = call_rv e"
  by (induction objs arbitrary: h rv evs)
     (auto simp: Let_def split: if_splits prod.splits)

lemma fault_is_NullPointer: "(f :: fault) = NullPointer"
  by (cases f)

lemma remove_installed_elims:
  assumes "remove_installed c obj ess h = (r, evs)"
  obtains
    (not_installed) "r = Some EINVAL" "evs = []"
  | (overwrite) "ess" "r = None" "evs = []"
  | (removed) rv where "\<not> ess" "evs = [EvRemove (pkgname obj) (version obj) True rv]"
      "r = (if rv \<noteq> 0 then Some rv else None)"
  using assms
  by (auto simp: remove_installed_def Let_def split: option.splits if_splits)

lemma unpack_register_elims:
  assumes "unpack_register c obj ess isdep h = (r, obj', isdep', evs)"
  obtains
    (unpack_failed) rv where "rv \<noteq> 0" "r = Some rv" "obj' = obj" "isdep' = isdep"
      "evs = [EvUnpack obj ess rv]"
  | (register_failed) rv where "rv \<noteq> 0" "r = Some rv" "obj' = obj" "isdep' = isdep"
      "evs = [EvUnpack obj ess 0, EvRegister obj isdep rv]"
  | (state_failed) rv where "rv \<noteq> 0" "r = Some rv" "obj' = obj" "isdep' = False"
      "evs = [EvUnpack obj ess 0, EvRegister obj isdep 0,
              EvSetState obj XBPS_PKG_STATE_UNPACKED rv]"
  | (unpacked) "r = None" "obj' = obj\<lparr>state := Some XBPS_PKG_STATE_UNPACKED\<rparr>"
      "isdep' = False"
      "evs = [EvUnpack obj ess 0, EvRegister obj isdep 0,
              EvSetState obj XBPS_PKG_STATE_UNPACKED 0]"
  using assms
  by (auto simp: unpack_register_def xbps_set_pkg_state_dictionary_def Let_def
           split: if_splits)

lemma unpack_one_elims:
  assumes "unpack_one c tx obj ess isdep h = (res, obj', ess', isdep', evs)"
  obtains
    (origin_null) "mark_isdep tx obj isdep = Inl NullPointer" "res = Some (Inl NullPointer)"
      "obj' = obj" "evs = []"
  | (no_state) d where "mark_isdep tx obj isdep = Inr d" "state obj = None"
      "res = Some (Inr EINVAL)" "obj' = obj" "evs = []"
  | (skipped) "mark_isdep tx obj isdep = Inr isdep'" "\<not> not_unpacked obj"
      "res = None" "obj' = obj" "evs = []"
  | (cur_null) d where "mark_isdep tx obj isdep = Inr d" "not_unpacked obj"
      "res = Some (Inl NullPointer)" "obj' = obj" "evs = []"
  | (remove_stopped) d rv where "mark_isdep tx obj isdep = Inr d" "not_unpacked obj"
      "is_update_of tx obj = Inr True"
      "remove_installed c obj ess' h = (Some rv, evs)" "res = Some (Inr rv)" "obj' = obj"
  | (went_on) d upd evs1 r2 evs2 where "mark_isdep tx obj isdep = Inr d" "not_unpacked obj"
      "is_update_of tx obj = Inr upd"
      "(if upd then remove_installed c obj ess' h else (None, [])) = (None, evs1)"
      "unpack_register c obj ess' d (h @ evs1) = (r2, obj', isdep', evs2)"
      "res = map_option Inr r2" "evs = evs1 @ evs2"
proof -
  define e where "e = (case essential obj of Some b \<Rightarrow> b | None \<Rightarrow> ess)"
  note body = assms[unfolded unpack_one_def Let_def xbps_get_pkg_state_dictionary_def,
      folded e_def]
  show ?thesis
  proof (cases "mark_isdep tx obj isdep")
    case (Inl f)
    then have m: "mark_isdep tx obj isdep = Inl NullPointer"
      using fault_is_NullPointer[of f] by simp
    with body have "res = Some (Inl NullPointer)" "obj' = obj" "evs = []"
      by auto
    with m show ?thesis by (rule origin_null)
  next
    case (Inr d)
    note d = this
    show ?thesis
    proof (cases "state obj")
      case None
      with d body have "res = Some (Inr EINVAL)" "obj' = obj" "evs = []"
        by auto
      with d None show ?thesis by (rule no_state)
    next
      case (Some st)
      note st = this
      show ?thesis
      proof (cases "st = XBPS_PKG_STATE_UNPACKED")
        case True
        with st d body have "isdep' = d" "res = None" "obj' = obj" "evs = []"
          by auto
        moreover have "\<not> not_unpacked obj" using True st by (simp add: not_unpacked_def)
        ultimately show ?thesis using d skipped by blast
      next
        case False
        with st have nu: "not_unpacked obj" by (simp add: not_unpacked_def)
        show ?thesis
        proof (cases "is_update_of tx obj")
          case (Inl f)
          then have "is_update_of tx obj = Inl NullPointer"
            using fault_is_NullPointer[of f] by simp
          with False st d body have "res = Some (Inl NullPointer)" "obj' = obj" "evs = []"
            by auto
          with d nu show ?thesis by (rule cur_null)
        next
          case (Inr upd)
          obtain r1 evs1 where r1:
            "(if upd then remove_installed c obj e h else (None, [])) = (r1, evs1)"
            by (cases "if upd then remove_installed c obj e h else (None, [])") auto
          show ?thesis
          proof (cases r1)
            case (Some rv)
            with r1 have upd: "upd" by (auto split: if_splits)
            from Some r1 Inr False st d body
            have *: "ess' = e" "res = Some (Inr rv)" "obj' = obj" "evs = evs1"
              by auto
            have "is_update_of tx obj = Inr True" using Inr upd by simp
            moreover have "remove_installed c obj ess' h = (Some rv, evs)"
              using r1 upd Some * by (auto split: if_splits)
            ultimately show ?thesis using d nu * remove_stopped by blast
          next
            case None
            obtain r2 o2 i2 evs2 where r2:
              "unpack_register c obj e d (h @ evs1) = (r2, o2, i2, evs2)"
              by (cases "unpack_register c obj e d (h @ evs1)") auto
            from None r1 r2 Inr False st d body
            have *: "ess' = e \<and> res = map_option Inr r2 \<and> obj' = o2 \<and> isdep' = i2 \<and>
                  evs = evs1 @ evs2"
              by (cases r2) auto
            have a: "(if upd then remove_installed c obj ess' h else (None, [])) = (None, evs1)"
              using r1 None * by (auto split: if_splits)
            have b: "unpack_register c obj ess' d (h @ evs1) = (r2, obj', isdep', evs2)"
              using r2 * by simp
            show ?thesis using went_on[OF d nu Inr a b] * by blast
          qed
        qed
      qed
    qed
  qed
qed

lemma remove_none_calls:
  assumes "(if upd then remove_installed c obj ess h else (None, [])) = (None, evs)"
  shows "evs = [] \<or> (upd \<and> \<not> ess \<and> evs = [EvRemove (pkgname obj) (version obj) True 0])"
proof (cases upd)
  case True
  with assms have "remove_installed c obj ess h = (None, evs)" by simp
  then show ?thesis using True
    by (cases rule: remove_installed_elims) (auto split: if_splits)
next
  case False
  with assms show ?thesis by simp
qed

lemma remove_some_calls:
  assumes "remove_installed c obj ess h = (Some rv, evs)"
  shows "(evs = [] \<and> rv = EINVAL) \<or>
         (\<not> ess \<and> rv \<noteq> 0 \<and> evs = [EvRemove (pkgname obj) (version obj) True rv])"
  using assms by (cases rule: remove_installed_elims) (auto split: if_splits)

lemma unpack_one_phase:
  assumes "unpack_one c tx obj ess isdep h = (res, obj', ess', isdep', evs)"
    and "e \<in> set evs"
  shows "phase_of e = 3 \<and> about e obj"
  using assms(1)
proof (cases rule: unpack_one_elims)
  case (remove_stopped d rv)
  from remove_some_calls[OF remove_stopped(4)] assms(2) show ?thesis by auto
next
  case (went_on d upd evs1 r2 evs2)
  from went_on(5) remove_none_calls[OF went_on(4)] assms(2) went_on(7) show ?thesis
    by (cases rule: unpack_register_elims) auto
qed (use assms(2) in auto)

lemma unpack_one_butlast:
  assumes "unpack_one c tx obj ess isdep h = (res, obj', ess', isdep', evs)"
    and "e \<in> set (butlast evs)"
  shows "call_rv e = 0"
  using assms(1)
proof (cases rule: unpack_one_elims)
  case (remove_stopped d rv)
  from remove_some_calls[OF remove_stopped(4)] assms(2) show ?thesis by auto
next
  case (went_on d upd evs1 r2 evs2)
  from went_on(5) remove_none_calls[OF went_on(4)] assms(2) went_on(7) show ?thesis
    by (cases rule: unpack_register_elims) auto
qed (use assms(2) in auto)

lemma unpack_one_None:
  assumes "unpack_one c tx obj ess isdep h = (None, obj', ess', isdep', evs)"
  shows "state obj' = Some XBPS_PKG_STATE_UNPACKED \<and>
     (obj' = obj \<or> obj' = obj\<lparr>state := Some XBPS_PKG_STATE_UNPACKED\<rparr>) \<and>
     (\<forall>e\<in>set evs. call_rv e = 0)"
  using assms
proof (cases rule: unpack_one_elims)
  case skipped
  then show ?thesis by (cases "state obj") (auto simp: not_unpacked_def)
next
  case (went_on d upd evs1 r2 evs2)
  from went_on(5) remove_none_calls[OF went_on(4)] went_on(6,7) show ?thesis
    by (cases rule: unpack_register_elims) auto
qed auto

lemma unpack_one_Some:
  assumes "unpack_one c tx obj ess isdep h = (Some r, obj', ess', isdep', evs)"
  shows "obj' = obj \<and>
     (\<forall>e\<in>set evs. not_unpacked obj \<and> (call_rv e \<noteq> 0 \<longrightarrow> r = Inr (call_rv e)))"
  using assms
proof (cases rule: unpack_one_elims)
  case (remove_stopped d rv)
  from remove_some_calls[OF remove_stopped(4)] remove_stopped show ?thesis by auto
next
  case (went_on d upd evs1 r2 evs2)
  from went_on(5) remove_none_calls[OF went_on(4)] went_on(2,6,7) show ?thesis
    by (cases rule: unpack_register_elims) auto
qed auto

lemma unpack_one_registered:
  assumes "unpack_one c tx obj ess isdep h = (res, obj', ess', isdep', evs)"
    and "(o', d) \<in> set (registered evs)"
  shows "o' = obj \<and> mark_isdep tx obj isdep = Inr d \<and> not_unpacked obj"
  using assms(1)
proof (cases rule: unpack_one_elims)
  case (remove_stopped d rv)
  from remove_some_calls[OF remove_stopped(4)] assms(2) show ?thesis by auto
next
  case (went_on d0 upd evs1 r2 evs2)
  from went_on(5) remove_none_calls[OF went_on(4)] assms(2) went_on(1,2,7) show ?thesis
    by (cases rule: unpack_register_elims) auto
qed (use assms(2) in auto)

lemma unpack_one_isdep:
  assumes "unpack_one c tx obj ess isdep h = (None, obj', ess', isdep', evs)"
  shows "if not_unpacked obj then isdep' = False
         else mark_isdep tx obj isdep = Inr isdep' \<and> evs = []"
  using assms
proof (cases rule: unpack_one_elims)
  case (went_on d0 upd evs1 r2 evs2)
  from went_on(5) went_on(2,6) show ?thesis
    by (cases rule: unpack_register_elims) auto
qed auto

lemma in_butlast_append:
  "e \<in> set (butlast (xs @ ys)) \<Longrightarrow> e \<in> set xs \<or> e \<in> set (butlast ys)"
  by (auto simp: butlast_append dest: in_set_butlastD split: if_splits)

lemma unpack_one_went_on_registered:
  assumes "unpack_one c tx obj ess isdep h = (None, obj', ess', isdep', evs)"
    and "not_unpacked obj"
  shows "\<exists>d. mark_isdep tx obj isdep = Inr d \<and> registered evs = [(obj, d)]"
  using assms(1)
proof (cases rule: unpack_one_elims)
  case (went_on d0 upd evs1 r2 evs2)
  from went_on(5) remove_none_calls[OF went_on(4)] went_on(1,6,7) show ?thesis
    by (cases rule: unpack_register_elims) auto
qed (use assms(2) in auto)

text \<open>One step of the loop, as a rule.\<close>

lemma unpack_loop_Cons_elims:
  assumes "unpack_loop c tx (obj # objs) ess isdep h = (res, objs', evs)"
  obtains
    (stop) r o1 e1 i1 where "unpack_one c tx obj ess isdep h = (Some r, o1, e1, i1, evs)"
      "res = Some r" "objs' = o1 # objs"
  | (go) o1 e1 i1 evs1 os2 evs2 where
      "unpack_one c tx obj ess isdep h = (None, o1, e1, i1, evs1)"
      "unpack_loop c tx objs e1 i1 (h @ evs1) = (res, os2, evs2)"
      "objs' = o1 # os2" "evs = evs1 @ evs2"
proof -
  obtain r1 o1 e1 i1 evs1 where one: "unpack_one c tx obj ess isdep h = (r1, o1, e1, i1, evs1)"
    using prod_cases5 by blast
  show ?thesis
  proof (cases r1)
    case (Some r)
    with one assms have "res = Some r" "objs' = o1 # objs" "evs = evs1" by simp_all
    with one Some stop show ?thesis by blast
  next
    case None
    obtain r2 os2 evs2 where rest: "unpack_loop c tx objs e1 i1 (h @ evs1) = (r2, os2, evs2)"
      using prod_cases3 by blast
    with None one assms have "res = r2" "objs' = o1 # os2" "evs = evs1 @ evs2" by simp_all
    with one None rest go show ?thesis by blast
  qed
qed

lemma unpack_loop_phase:
  "unpack_loop c tx objs ess isdep h = (res, objs', evs) \<Longrightarrow> e \<in> set evs \<Longrightarrow>
     phase_of e = 3"
proof (induction objs arbitrary: ess isdep h res objs' evs)
  case Nil
  then show ?case by simp
next
  case (Cons obj objs)
  from Cons.prems(1) show ?case
  proof (cases rule: unpack_loop_Cons_elims)
    case (stop r o1 e1 i1)
    from unpack_one_phase[OF stop(1) Cons.prems(2)] show ?thesis by simp
  next
    case (go o1 e1 i1 evs1 os2 evs2)
    from Cons.prems(2) go(4) have "e \<in> set evs1 \<or> e \<in> set evs2" by simp
    then show ?thesis
    proof
      assume "e \<in> set evs1"
      from unpack_one_phase[OF go(1) this] show ?thesis by simp
    next
      assume "e \<in> set evs2"
      from Cons.IH[OF go(2) this] show ?thesis .
    qed
  qed
qed

lemma unpack_loop_names:
  "unpack_loop c tx objs ess isdep h = (res, objs', evs) \<Longrightarrow>
     map (\<lambda>obj. (pkgname obj, version obj)) objs' = map (\<lambda>obj. (pkgname obj, version obj)) objs"
proof (induction objs arbitrary: ess isdep h res objs' evs)
  case Nil
  then show ?case by simp
next
  case (Cons obj objs)
  from Cons.prems(1) show ?case
  proof (cases rule: unpack_loop_Cons_elims)
    case (stop r o1 e1 i1)
    from unpack_one_Some[OF stop(1)] have "o1 = obj" by simp
    with stop(3) show ?thesis by simp
  next
    case (go o1 e1 i1 evs1 os2 evs2)
    from unpack_one_None[OF go(1)]
    have "o1 = obj \<or> o1 = obj\<lparr>state := Some XBPS_PKG_STATE_UNPACKED\<rparr>" by simp
    then have "pkgname o1 = pkgname obj \<and> version o1 = version obj" by auto
    with Cons.IH[OF go(2)] go(3) show ?thesis by simp
  qed
qed

lemma unpack_loop_done:
  "unpack_loop c tx objs ess isdep h = (None, objs', evs) \<Longrightarrow>
     (\<forall>obj\<in>set objs'. state obj = Some XBPS_PKG_STATE_UNPACKED) \<and>
     (\<forall>e\<in>set evs. call_rv e = 0)"
proof (induction objs arbitrary: ess isdep h objs' evs)
  case Nil
  then show ?case by simp
next
  case (Cons obj objs)
  from Cons.prems(1) show ?case
  proof (cases rule: unpack_loop_Cons_elims)
    case (stop r o1 e1 i1)
    then show ?thesis by simp
  next
    case (go o1 e1 i1 evs1 os2 evs2)
    from unpack_one_None[OF go(1)]
    have "state o1 = Some XBPS_PKG_STATE_UNPACKED" "\<forall>e\<in>set evs1. call_rv e = 0"
      by simp_all
    with Cons.IH[OF go(2)] go(3,4) show ?thesis by auto
  qed
qed

lemma unpack_loop_butlast:
  "unpack_loop c tx objs ess isdep h = (res, objs', evs) \<Longrightarrow> e \<in> set (butlast evs) \<Longrightarrow>
     call_rv e = 0"
proof (induction objs arbitrary: ess isdep h res objs' evs)
  case Nil
  then show ?case by simp
next
  case (Cons obj objs)
  from Cons.prems(1) show ?case
  proof (cases rule: unpack_loop_Cons_elims)
    case (stop r o1 e1 i1)
    from unpack_one_butlast[OF stop(1) Cons.prems(2)] show ?thesis .
  next
    case (go o1 e1 i1 evs1 os2 evs2)
    from Cons.prems(2) go(4) have "e \<in> set (butlast (evs1 @ evs2))" by simp
    then have "e \<in> set evs1 \<or> e \<in> set (butlast evs2)"
      by (rule in_butlast_append)
    then show ?thesis
    proof
      assume "e \<in> set evs1"
      with unpack_one_None[OF go(1)] show ?thesis by simp
    next
      assume "e \<in> set (butlast evs2)"
      from Cons.IH[OF go(2) this] show ?thesis .
    qed
  qed
qed

lemma unpack_loop_stopped:
  "unpack_loop c tx objs ess isdep h = (Some r, objs', evs) \<Longrightarrow>
     \<exists>K<length objs. length objs' = length objs \<and>
       (\<forall>i<K. state (objs' ! i) = Some XBPS_PKG_STATE_UNPACKED) \<and>
       (\<forall>i. K \<le> i \<and> i < length objs \<longrightarrow> objs' ! i = objs ! i) \<and>
       (\<forall>e\<in>set evs. \<exists>i\<le>K. about e (objs ! i)) \<and>
       (\<forall>e\<in>set evs. call_rv e \<noteq> 0 \<longrightarrow>
          about e (objs ! K) \<and> not_unpacked (objs ! K) \<and> r = Inr (call_rv e))"
proof (induction objs arbitrary: ess isdep h objs' evs)
  case Nil
  then show ?case by simp
next
  case (Cons obj objs)
  from Cons.prems(1) show ?case
  proof (cases rule: unpack_loop_Cons_elims)
    case (stop r' o1 e1 i1)
    then have r: "r' = r" by simp
    from unpack_one_Some[OF stop(1)]
    have o1: "o1 = obj"
      and ev: "\<forall>e\<in>set evs. not_unpacked obj \<and> (call_rv e \<noteq> 0 \<longrightarrow> r' = Inr (call_rv e))"
      by simp_all
    have ab: "\<forall>e\<in>set evs. about e obj" using unpack_one_phase[OF stop(1)] by simp
    have "0 < length (obj # objs) \<and> length objs' = length (obj # objs) \<and>
       (\<forall>i<0::nat. state (objs' ! i) = Some XBPS_PKG_STATE_UNPACKED) \<and>
       (\<forall>i. 0 \<le> i \<and> i < length (obj # objs) \<longrightarrow> objs' ! i = (obj # objs) ! i) \<and>
       (\<forall>e\<in>set evs. \<exists>i\<le>0::nat. about e ((obj # objs) ! i)) \<and>
       (\<forall>e\<in>set evs. call_rv e \<noteq> 0 \<longrightarrow>
          about e ((obj # objs) ! 0) \<and> not_unpacked ((obj # objs) ! 0) \<and> r = Inr (call_rv e))"
      using o1 ev ab r stop(3) by simp
    then show ?thesis by (rule_tac x = 0 in exI) simp
  next
    case (go o1 e1 i1 evs1 os2 evs2)
    from unpack_one_None[OF go(1)]
    have o1: "state o1 = Some XBPS_PKG_STATE_UNPACKED" and z: "\<forall>e\<in>set evs1. call_rv e = 0"
      by simp_all
    have ab1: "\<forall>e\<in>set evs1. about e obj" using unpack_one_phase[OF go(1)] by simp
    from Cons.IH[OF go(2)] obtain K where K:
      "K < length objs" "length os2 = length objs"
      "\<forall>i<K. state (os2 ! i) = Some XBPS_PKG_STATE_UNPACKED"
      "\<forall>i. K \<le> i \<and> i < length objs \<longrightarrow> os2 ! i = objs ! i"
      "\<forall>e\<in>set evs2. \<exists>i\<le>K. about e (objs ! i)"
      "\<forall>e\<in>set evs2. call_rv e \<noteq> 0 \<longrightarrow>
          about e (objs ! K) \<and> not_unpacked (objs ! K) \<and> r = Inr (call_rv e)"
      by auto
    have a: "\<forall>i<Suc K. state ((o1 # os2) ! i) = Some XBPS_PKG_STATE_UNPACKED"
      using o1 K(3) by (simp add: nth_Cons split: nat.split)
    have b: "\<forall>i. Suc K \<le> i \<and> i < length (obj # objs) \<longrightarrow> (o1 # os2) ! i = (obj # objs) ! i"
      using K(4) by (simp add: nth_Cons split: nat.split)
    have c: "\<forall>e\<in>set (evs1 @ evs2). call_rv e \<noteq> 0 \<longrightarrow>
          about e ((obj # objs) ! Suc K) \<and> not_unpacked ((obj # objs) ! Suc K) \<and>
          r = Inr (call_rv e)"
      using z K(6) by auto
    have d: "\<forall>e\<in>set (evs1 @ evs2). \<exists>i\<le>Suc K. about e ((obj # objs) ! i)"
    proof
      fix e assume "e \<in> set (evs1 @ evs2)"
      then consider "e \<in> set evs1" | "e \<in> set evs2" by auto
      then show "\<exists>i\<le>Suc K. about e ((obj # objs) ! i)"
      proof cases
        case 1
        with ab1 have "about e ((obj # objs) ! 0)" by simp
        then show ?thesis by (rule_tac x = 0 in exI) simp
      next
        case 2
        with K(5) obtain i where "i \<le> K" "about e (objs ! i)" by auto
        then show ?thesis by (rule_tac x = "Suc i" in exI) simp
      qed
    qed
    have "Suc K < length (obj # objs) \<and> length objs' = length (obj # objs) \<and>
       (\<forall>i<Suc K. state (objs' ! i) = Some XBPS_PKG_STATE_UNPACKED) \<and>
       (\<forall>i. Suc K \<le> i \<and> i < length (obj # objs) \<longrightarrow> objs' ! i = (obj # objs) ! i) \<and>
       (\<forall>e\<in>set evs. \<exists>i\<le>Suc K. about e ((obj # objs) ! i)) \<and>
       (\<forall>e\<in>set evs. call_rv e \<noteq> 0 \<longrightarrow>
          about e ((obj # objs) ! Suc K) \<and> not_unpacked ((obj # objs) ! Suc K) \<and>
          r = Inr (call_rv e))"
      using a b c d K(1,2) go(3,4) by simp
    then show ?thesis by (rule_tac x = "Suc K" in exI) simp
  qed
qed

lemma registered_append: "registered (xs @ ys) = registered xs @ registered ys"
  by (induction xs rule: registered.induct) simp_all

lemma mark_isdep_one:
  "trans_type tx = TRANS_ONE \<Longrightarrow> originpkgname tx = Some orig \<Longrightarrow>
     mark_isdep tx obj isdep = Inr (orig \<noteq> pkgname obj \<or> isdep)"
  by (simp add: mark_isdep_def)

lemma unpack_loop_registered:
  assumes "trans_type tx = TRANS_ONE" and "originpkgname tx = Some orig"
  shows "unpack_loop c tx objs ess isdep h = (res, objs', evs) \<Longrightarrow>
     (obj, d) \<in> set (registered evs) \<Longrightarrow>
     (pkgname obj \<noteq> orig \<longrightarrow> d) \<and>
     ((\<forall>x\<in>set objs. not_unpacked x) \<and> \<not> isdep \<longrightarrow> d = (pkgname obj \<noteq> orig))"
proof (induction objs arbitrary: ess isdep h res objs' evs)
  case Nil
  then show ?case by simp
next
  case (Cons x objs)
  from Cons.prems(1) show ?case
  proof (cases rule: unpack_loop_Cons_elims)
    case (stop r o1 e1 i1)
    from unpack_one_registered[OF stop(1) Cons.prems(2)] mark_isdep_one[OF assms, of x isdep]
    show ?thesis by auto
  next
    case (go o1 e1 i1 evs1 os2 evs2)
    from Cons.prems(2) go(4)
    have "(obj, d) \<in> set (registered evs1) \<or> (obj, d) \<in> set (registered evs2)"
      by (simp add: registered_append)
    then show ?thesis
    proof
      assume "(obj, d) \<in> set (registered evs1)"
      from unpack_one_registered[OF go(1) this] mark_isdep_one[OF assms, of x isdep]
      show ?thesis by auto
    next
      assume in2: "(obj, d) \<in> set (registered evs2)"
      have "not_unpacked x \<longrightarrow> i1 = False" using unpack_one_isdep[OF go(1)] by simp
      with Cons.IH[OF go(2) in2] show ?thesis by simp
    qed
  qed
qed

lemma unpack_loop_first_registered:
  assumes "trans_type tx = TRANS_ONE" and "originpkgname tx = Some orig"
  shows "unpack_loop c tx objs ess True h = (res, objs', evs) \<Longrightarrow>
     registered evs = (obj, d) # others \<Longrightarrow>
     d \<and> find not_unpacked objs = Some obj"
proof (induction objs arbitrary: ess h res objs' evs)
  case Nil
  then show ?case by simp
next
  case (Cons x objs)
  have m: "mark_isdep tx x True = Inr True" using mark_isdep_one[OF assms, of x True] by simp
  from Cons.prems(1) show ?case
  proof (cases rule: unpack_loop_Cons_elims)
    case (stop r o1 e1 i1)
    from Cons.prems(2) have "(obj, d) \<in> set (registered evs)" by simp
    from unpack_one_registered[OF stop(1) this] m show ?thesis by simp
  next
    case (go o1 e1 i1 evs1 os2 evs2)
    show ?thesis
    proof (cases "not_unpacked x")
      case True
      from unpack_one_went_on_registered[OF go(1) True] m
      have "registered evs1 = [(x, True)]" by auto
      with Cons.prems(2) go(4) True show ?thesis by (simp add: registered_append)
    next
      case False
      with unpack_one_isdep[OF go(1)] m have "i1 = True" "evs1 = []" by simp_all
      with go(2,4) Cons.prems(2) Cons.IH[of e1 h res os2 evs2] False show ?thesis by simp
    qed
  qed
qed

lemma exec_transaction_elims:
  assumes "exec_transaction c tx h = (r, objs', evs)"
  obtains
    (sizes_failed) rv1 where
      "show_transaction_sizes c (iter tx)
         (if trans_type tx = TRANS_ALL then ''updated'' else ''installed'') h = (rv1, evs)"
      "rv1 \<noteq> 0" "r = Inr rv1" "objs' = iter tx"
  | (declined) evs1 where
      "show_transaction_sizes c (iter tx)
         (if trans_type tx = TRANS_ALL then ''updated'' else ''installed'') h = (0, evs1)"
      "force tx = False" "xbps_noyes c (h @ evs1) = False"
      "evs = evs1 @ [EvNoYes False]" "r = Inr 0" "objs' = iter tx"
  | (hash_failed) evs1 p rv3 evs3 where
      "show_transaction_sizes c (iter tx)
         (if trans_type tx = TRANS_ALL then ''updated'' else ''installed'') h = (0, evs1)"
      "p = (if force tx = False then [EvNoYes True] else [])"
      "check_pkg_hashes c (iter tx) (h @ evs1 @ p) = (rv3, evs3)"
      "rv3 \<noteq> 0" "r = Inr rv3" "objs' = iter tx" "evs = evs1 @ p @ evs3"
  | (unpack_stopped) evs1 p evs3 evs4 where
      "show_transaction_sizes c (iter tx)
         (if trans_type tx = TRANS_ALL then ''updated'' else ''installed'') h = (0, evs1)"
      "p = (if force tx = False then [EvNoYes True] else [])"
      "check_pkg_hashes c (iter tx) (h @ evs1 @ p) = (0, evs3)"
      "unpack_loop c tx (iter tx) False False (h @ evs1 @ p @ evs3) = (Some r, objs', evs4)"
      "evs = evs1 @ p @ evs3 @ evs4"
  | (finished) evs1 p evs3 evs4 rv5 evs5 where
      "show_transaction_sizes c (iter tx)
         (if trans_type tx = TRANS_ALL then ''updated'' else ''installed'') h = (0, evs1)"
      "p = (if force tx = False then [EvNoYes True] else [])"
      "check_pkg_hashes c (iter tx) (h @ evs1 @ p) = (0, evs3)"
      "unpack_loop c tx (iter tx) False False (h @ evs1 @ p @ evs3) = (None, objs', evs4)"
      "configure_loop c objs' (h @ evs1 @ p @ evs3 @ evs4) = (rv5, evs5)"
      "r = Inr rv5" "evs = evs1 @ p @ evs3 @ evs4 @ evs5"
proof -
  define descr where "descr = (if trans_type tx = TRANS_ALL then ''updated'' else ''installed'')"
  note body = assms[unfolded exec_transaction_def Let_def, folded descr_def]
  obtain rv1 evs1 where s1: "show_transaction_sizes c (iter tx) descr h = (rv1, evs1)"
    by (cases "show_transaction_sizes c (iter tx) descr h") auto
  show ?thesis
  proof (cases "rv1 = 0")
    case False
    with s1 body have "r = Inr rv1" "objs' = iter tx" "evs = evs1" by auto
    with s1 False show ?thesis using sizes_failed unfolding descr_def by auto
  next
    case True
    note rv1 = this
    show ?thesis
    proof (cases "force tx = False \<and> xbps_noyes c (h @ evs1) = False")
      case True
      with s1 rv1 body have "evs = evs1 @ [EvNoYes False]" "r = Inr 0" "objs' = iter tx"
        by auto
      with s1 rv1 True show ?thesis using declined unfolding descr_def by auto
    next
      case False
      define p where "p = (if force tx = False then [EvNoYes True] else [])"
      obtain rv3 evs3 where s3: "check_pkg_hashes c (iter tx) (h @ evs1 @ p) = (rv3, evs3)"
        by (cases "check_pkg_hashes c (iter tx) (h @ evs1 @ p)") auto
      show ?thesis
      proof (cases "rv3 = 0")
        case False
        with s1 rv1 s3 \<open>\<not> (force tx = False \<and> xbps_noyes c (h @ evs1) = False)\<close> body
        have "r = Inr rv3" "objs' = iter tx" "evs = evs1 @ p @ evs3"
          by (auto simp: p_def)
        with s1 rv1 s3 False show ?thesis using hash_failed[of evs1 p rv3 evs3]
          unfolding descr_def p_def by auto
      next
        case True
        note rv3 = this
        obtain r4 objs4 evs4 where s4:
          "unpack_loop c tx (iter tx) False False (h @ evs1 @ p @ evs3) = (r4, objs4, evs4)"
          by (cases "unpack_loop c tx (iter tx) False False (h @ evs1 @ p @ evs3)") auto
        show ?thesis
        proof (cases r4)
          case (Some r')
          with s1 rv1 s3 rv3 s4 \<open>\<not> (force tx = False \<and> xbps_noyes c (h @ evs1) = False)\<close> body
          have "r = r'" "objs' = objs4" "evs = evs1 @ p @ evs3 @ evs4"
            by (auto simp: p_def)
          with s1 rv1 s3 rv3 s4 Some show ?thesis using unpack_stopped[of evs1 p evs3 evs4]
            unfolding descr_def p_def by auto
        next
          case None
          obtain rv5 evs5 where s5:
            "configure_loop c objs4 (h @ evs1 @ p @ evs3 @ evs4) = (rv5, evs5)"
            by (cases "configure_loop c objs4 (h @ evs1 @ p @ evs3 @ evs4)") auto
          with s1 rv1 s3 rv3 s4 None \<open>\<not> (force tx = False \<and> xbps_noyes c (h @ evs1) = False)\<close> body
          have "r = Inr rv5" "objs' = objs4" "evs = evs1 @ p @ evs3 @ evs4 @ evs5"
            by (auto simp: p_def)
          with s1 rv1 s3 rv3 s4 s5 None show ?thesis
            using finished[of evs1 p evs3 evs4 rv5 evs5]
            unfolding descr_def p_def by auto
        qed
      qed
    qed
  qed
qed

lemmas run_defs =
  exec_transaction_def show_transaction_sizes_def unpack_one_def mark_isdep_def
  is_update_of_def remove_installed_def unpack_register_def
  xbps_set_pkg_state_dictionary_def xbps_get_pkg_state_dictionary_def
  ok_collab_def mkpkg_def trans_one_def trans_all_def Let_def
  EINVAL_def ERANGE_def ENOENT_def EAGAIN_def



section \<open>Properties of a run\<close>

text \<open>
  What the calls of a run of \<open>exec_transaction\<close> and of the two entry points say
  about it: which part made them, in which order, and what they returned.
\<close>

lemma unat_sum_list_64:
  "unat (sum_list (ws :: 64 word list)) = sum_list (map unat ws) mod 2 ^ 64"
proof (induction ws)
  case Nil
  then show ?case by simp
next
  case (Cons w ws)
  have "unat (w + sum_list ws) = (unat w + unat (sum_list ws)) mod 2 ^ 64"
    by (simp add: unat_word_ariths)
  also have "\<dots> = (unat w + sum_list (map unat ws) mod 2 ^ 64) mod 2 ^ 64"
    by (simp only: Cons.IH)
  also have "\<dots> = (unat w + sum_list (map unat ws)) mod 2 ^ 64"
    by (rule mod_add_right_eq)
  finally show ?case by simp
qed

lemma exec_transaction_declined:
  assumes "exec_transaction c tx h = (r, objs', evs)" and "EvNoYes False \<in> set evs"
  shows "r = Inr 0 \<and> objs' = iter tx \<and> force tx = False \<and> last evs = EvNoYes False \<and>
         (\<forall>e\<in>set evs. phase_of e < 2)"
  using assms(1)
proof (cases rule: exec_transaction_elims)
  case (sizes_failed rv1)
  from show_transaction_sizes_calls[OF sizes_failed(1)] assms(2) show ?thesis by auto
next
  case (declined evs1)
  from show_transaction_sizes_calls[OF declined(1)] declined show ?thesis by auto
next
  case (hash_failed evs1 p rv3 evs3)
  have "\<forall>e\<in>set evs1. phase_of e = 0" "\<forall>e\<in>set evs3. phase_of e = 2"
    using show_transaction_sizes_calls[OF hash_failed(1)]
      check_pkg_hashes_phase[OF hash_failed(3)] by simp_all
  with hash_failed(2,7) assms(2) show ?thesis by (auto split: if_splits)
next
  case (unpack_stopped evs1 p evs3 evs4)
  have "\<forall>e\<in>set evs1. phase_of e = 0" "\<forall>e\<in>set evs3. phase_of e = 2"
    "\<forall>e\<in>set evs4. phase_of e = 3"
    using show_transaction_sizes_calls[OF unpack_stopped(1)]
      check_pkg_hashes_phase[OF unpack_stopped(3)]
      unpack_loop_phase[OF unpack_stopped(4)] by simp_all
  with unpack_stopped(2,5) assms(2) show ?thesis by (auto split: if_splits)
next
  case (finished evs1 p evs3 evs4 rv5 evs5)
  have "\<forall>e\<in>set evs1. phase_of e = 0" "\<forall>e\<in>set evs3. phase_of e = 2"
    "\<forall>e\<in>set evs4. phase_of e = 3" "\<forall>e\<in>set evs5. phase_of e = 4"
    using show_transaction_sizes_calls[OF finished(1)]
      check_pkg_hashes_phase[OF finished(3)]
      unpack_loop_phase[OF finished(4)] configure_loop_phase[OF finished(5)] by simp_all
  with finished(2,7) assms(2) show ?thesis by (auto split: if_splits)
qed

lemma xbps_install_pkg_run:
  assumes "xbps_install_pkg c pkg force' update' = (st, evs)"
  shows "evs = [] \<or>
         (\<exists>tx r objs'. exec_transaction c tx [] = (r, objs', evs) \<and>
            (r = Inr 0 \<longrightarrow> st = Inr EXIT_SUCCESS))"
  using assms
  by (auto simp: xbps_install_pkg_def cleanup_def
      split: sum.splits option.splits if_splits prod.splits)

lemma xbps_autoupdate_pkgs_run:
  assumes "xbps_autoupdate_pkgs c force' = (st, evs)"
  shows "evs = [] \<or>
         (\<exists>tx r objs'. exec_transaction c tx [] = (r, objs', evs) \<and>
            (r = Inr 0 \<longrightarrow> st = Inr EXIT_SUCCESS))"
  using assms
  by (auto simp: xbps_autoupdate_pkgs_def Let_def cleanup_def
      split: sum.splits option.splits if_splits prod.splits)

lemma last_if_not_butlast: "e \<in> set xs \<Longrightarrow> e \<notin> set (butlast xs) \<Longrightarrow> e = last xs"
  by (induction xs) (auto split: if_splits)

lemma hashed_append: "hashed (xs @ ys) = hashed xs @ hashed ys"
  by (induction xs rule: hashed.induct) simp_all

lemma hashed_other_phase: "\<forall>e\<in>set xs. phase_of e \<noteq> 2 \<Longrightarrow> hashed xs = []"
  by (induction xs rule: hashed.induct) simp_all

lemma last_append_right: "e \<in> set ys \<Longrightarrow> e = last ys \<Longrightarrow> e = last (xs @ ys)"
  by (cases ys) auto

lemma check_pkg_hashes_stop:
  assumes "check_pkg_hashes c objs h = (rv, hs)" and "e \<in> set hs" and "call_rv e \<noteq> 0"
  shows "rv = -1 \<and> e = last hs"
proof -
  have "e \<notin> set (butlast hs)" using check_pkg_hashes_butlast[OF assms(1)] assms(3) by auto
  with assms(2) have "e = last hs" by (rule last_if_not_butlast)
  with check_pkg_hashes_failed[OF assms] show ?thesis by simp
qed

lemma exec_transaction_hashed:
  assumes "exec_transaction c tx h = (r, objs', evs)"
  shows "prefix (hashed evs) (filter not_unpacked (iter tx)) \<and>
         ((\<exists>e\<in>set evs. 3 \<le> phase_of e) \<longrightarrow>
            hashed evs = filter not_unpacked (iter tx) \<and>
            (\<forall>e\<in>set evs. phase_of e = 2 \<longrightarrow> call_rv e = 0))"
  using assms
proof (cases rule: exec_transaction_elims)
  case (sizes_failed rv1)
  have "\<forall>e\<in>set evs. phase_of e = 0" using show_transaction_sizes_calls[OF sizes_failed(1)] by simp
  then have "hashed evs = [] \<and> (\<forall>e\<in>set evs. \<not> 3 \<le> phase_of e)"
    by (simp add: hashed_other_phase)
  then show ?thesis by simp
next
  case (declined evs1)
  have "\<forall>e\<in>set evs1. phase_of e = 0" using show_transaction_sizes_calls[OF declined(1)] by simp
  with declined(4) have "hashed evs = [] \<and> (\<forall>e\<in>set evs. \<not> 3 \<le> phase_of e)"
    by (auto simp: hashed_append hashed_other_phase)
  then show ?thesis by simp
next
  case (hash_failed evs1 p rv3 evs3)
  have p1: "\<forall>e\<in>set evs1. phase_of e = 0" and p2: "\<forall>e\<in>set p. phase_of e = 1"
    and p3: "\<forall>e\<in>set evs3. phase_of e = 2"
    using show_transaction_sizes_calls[OF hash_failed(1)] hash_failed(2)
      check_pkg_hashes_phase[OF hash_failed(3)] by simp_all
  have "hashed evs1 = []" "hashed p = []" using p1 p2 by (simp_all add: hashed_other_phase)
  then have "hashed evs = hashed evs3" using hash_failed(7) by (simp add: hashed_append)
  moreover have "\<forall>e\<in>set evs. \<not> 3 \<le> phase_of e" using p1 p2 p3 hash_failed(7) by auto
  ultimately show ?thesis using check_pkg_hashes_prefix[OF hash_failed(3)] by simp
next
  case (unpack_stopped evs1 p evs3 evs4)
  have p1: "\<forall>e\<in>set evs1. phase_of e = 0" and p2: "\<forall>e\<in>set p. phase_of e = 1"
    and p3: "\<forall>e\<in>set evs3. phase_of e = 2" and p4: "\<forall>e\<in>set evs4. phase_of e = 3"
    using show_transaction_sizes_calls[OF unpack_stopped(1)] unpack_stopped(2)
      check_pkg_hashes_phase[OF unpack_stopped(3)] unpack_loop_phase[OF unpack_stopped(4)]
    by simp_all
  have "hashed evs1 = []" "hashed p = []" "hashed evs4 = []"
    using p1 p2 p4 by (simp_all add: hashed_other_phase)
  then have "hashed evs = hashed evs3" using unpack_stopped(5) by (simp add: hashed_append)
  moreover have "\<forall>e\<in>set evs. phase_of e = 2 \<longrightarrow> e \<in> set evs3"
    using p1 p2 p4 unpack_stopped(5) by auto
  ultimately show ?thesis using check_pkg_hashes_ok[OF unpack_stopped(3)] by simp
next
  case (finished evs1 p evs3 evs4 rv5 evs5)
  have p1: "\<forall>e\<in>set evs1. phase_of e = 0" and p2: "\<forall>e\<in>set p. phase_of e = 1"
    and p3: "\<forall>e\<in>set evs3. phase_of e = 2" and p4: "\<forall>e\<in>set evs4. phase_of e = 3"
    and p5: "\<forall>e\<in>set evs5. phase_of e = 4"
    using show_transaction_sizes_calls[OF finished(1)] finished(2)
      check_pkg_hashes_phase[OF finished(3)] unpack_loop_phase[OF finished(4)]
      configure_loop_phase[OF finished(5)]
    by simp_all
  have "hashed evs1 = []" "hashed p = []" "hashed evs4 = []" "hashed evs5 = []"
    using p1 p2 p4 p5 by (simp_all add: hashed_other_phase)
  then have "hashed evs = hashed evs3" using finished(7) by (simp add: hashed_append)
  moreover have "\<forall>e\<in>set evs. phase_of e = 2 \<longrightarrow> e \<in> set evs3"
    using p1 p2 p4 p5 finished(7) by auto
  ultimately show ?thesis using check_pkg_hashes_ok[OF finished(3)] by simp
qed

lemma exec_transaction_hash_failed:
  assumes "exec_transaction c tx h = (r, objs', evs)"
    and "e \<in> set evs" and "phase_of e = 2" and "call_rv e \<noteq> 0"
  shows "r = Inr (-1) \<and> objs' = iter tx \<and> e = last evs \<and> (\<forall>e'\<in>set evs. phase_of e' \<le> 2)"
  using assms(1)
proof (cases rule: exec_transaction_elims)
  case (sizes_failed rv1)
  from show_transaction_sizes_calls[OF sizes_failed(1)] assms(2,3) show ?thesis by auto
next
  case (declined evs1)
  from show_transaction_sizes_calls[OF declined(1)] declined(4) assms(2,3) show ?thesis by auto
next
  case (hash_failed evs1 p rv3 evs3)
  have p1: "\<forall>e\<in>set evs1. phase_of e = 0" and p2: "\<forall>e\<in>set p. phase_of e = 1"
    and p3: "\<forall>e\<in>set evs3. phase_of e = 2"
    using show_transaction_sizes_calls[OF hash_failed(1)] hash_failed(2)
      check_pkg_hashes_phase[OF hash_failed(3)] by simp_all
  have in3: "e \<in> set evs3" using p1 p2 assms(2,3) hash_failed(7) by auto
  from check_pkg_hashes_stop[OF hash_failed(3) in3 assms(4)]
  have "rv3 = -1" "e = last evs3" by simp_all
  moreover have "e = last evs"
    using last_append_right[OF in3 \<open>e = last evs3\<close>, of "evs1 @ p"] hash_failed(7) by simp
  moreover have "\<forall>e'\<in>set evs. phase_of e' \<le> 2" using p1 p2 p3 hash_failed(7) by auto
  ultimately show ?thesis using hash_failed(5,6) by simp
next
  case (unpack_stopped evs1 p evs3 evs4)
  have p1: "\<forall>e\<in>set evs1. phase_of e = 0" and p2: "\<forall>e\<in>set p. phase_of e = 1"
    and p4: "\<forall>e\<in>set evs4. phase_of e = 3"
    using show_transaction_sizes_calls[OF unpack_stopped(1)] unpack_stopped(2)
      unpack_loop_phase[OF unpack_stopped(4)]
    by simp_all
  have "e \<in> set evs3" using p1 p2 p4 assms(2,3) unpack_stopped(5) by auto
  with check_pkg_hashes_ok[OF unpack_stopped(3)] assms(4) show ?thesis by simp
next
  case (finished evs1 p evs3 evs4 rv5 evs5)
  have p1: "\<forall>e\<in>set evs1. phase_of e = 0" and p2: "\<forall>e\<in>set p. phase_of e = 1"
    and p4: "\<forall>e\<in>set evs4. phase_of e = 3" and p5: "\<forall>e\<in>set evs5. phase_of e = 4"
    using show_transaction_sizes_calls[OF finished(1)] finished(2)
      unpack_loop_phase[OF finished(4)] configure_loop_phase[OF finished(5)]
    by simp_all
  have "e \<in> set evs3" using p1 p2 p4 p5 assms(2,3) finished(7) by auto
  with check_pkg_hashes_ok[OF finished(3)] assms(4) show ?thesis by simp
qed

lemma configured_append: "configured (xs @ ys) = configured xs @ configured ys"
  by (induction xs rule: configured.induct) simp_all

lemma configured_other_phase: "\<forall>e\<in>set xs. phase_of e \<noteq> 4 \<Longrightarrow> configured xs = []"
  by (induction xs rule: configured.induct) simp_all

lemma configure_loop_stop:
  assumes "configure_loop c objs h = (rv, cs)" and "e \<in> set cs" and "call_rv e \<noteq> 0"
  shows "rv = call_rv e \<and> e = last cs"
proof -
  have "e \<notin> set (butlast cs)" using configure_loop_butlast[OF assms(1)] assms(3) by auto
  with assms(2) have "e = last cs" by (rule last_if_not_butlast)
  with configure_loop_failed[OF assms] show ?thesis by simp
qed

lemma unpack_one_nonzero:
  assumes "unpack_one c tx obj ess isdep h = (Some r, obj', ess', isdep', evs)"
  shows "r \<noteq> Inr 0"
  using assms
proof (cases rule: unpack_one_elims)
  case (no_state d)
  then show ?thesis by (simp add: EINVAL_def)
next
  case (remove_stopped d rv)
  from remove_some_calls[OF remove_stopped(4)] remove_stopped(5) show ?thesis
    by (auto simp: EINVAL_def)
next
  case (went_on d upd evs1 r2 evs2)
  from went_on(5) went_on(6) show ?thesis
    by (cases rule: unpack_register_elims) auto
qed auto

lemma unpack_loop_nonzero:
  "unpack_loop c tx objs ess isdep h = (Some r, objs', evs) \<Longrightarrow> r \<noteq> Inr 0"
proof (induction objs arbitrary: ess isdep h objs' evs)
  case Nil
  then show ?case by simp
next
  case (Cons obj objs)
  from Cons.prems show ?case
  proof (cases rule: unpack_loop_Cons_elims)
    case (stop r' o1 e1 i1)
    from unpack_one_nonzero[OF stop(1)] stop(2) show ?thesis by simp
  next
    case (go o1 e1 i1 evs1 os2 evs2)
    from Cons.IH[OF go(2)] show ?thesis .
  qed
qed

lemma exec_transaction_configured:
  assumes "exec_transaction c tx h = (r, objs', evs)"
  shows "prefix (configured evs) (names (iter tx)) \<and>
         (r = Inr 0 \<and> EvNoYes False \<notin> set evs \<longrightarrow>
            configured evs = names (iter tx) \<and>
            (\<forall>obj\<in>set objs'. state obj = Some XBPS_PKG_STATE_UNPACKED)) \<and>
         (\<forall>e\<in>set evs. phase_of e = 4 \<and> call_rv e \<noteq> 0 \<longrightarrow>
            r = Inr (call_rv e) \<and> e = last evs)"
  using assms
proof (cases rule: exec_transaction_elims)
  case (sizes_failed rv1)
  have "\<forall>e\<in>set evs. phase_of e = 0" using show_transaction_sizes_calls[OF sizes_failed(1)] by simp
  then have "configured evs = [] \<and> (\<forall>e\<in>set evs. phase_of e \<noteq> 4)"
    by (simp add: configured_other_phase)
  with sizes_failed(2,3) show ?thesis by simp
next
  case (declined evs1)
  have "\<forall>e\<in>set evs1. phase_of e = 0" using show_transaction_sizes_calls[OF declined(1)] by simp
  with declined(4) have "configured evs = [] \<and> (\<forall>e\<in>set evs. phase_of e \<noteq> 4)"
    by (auto simp: configured_append configured_other_phase)
  with declined(4) show ?thesis by simp
next
  case (hash_failed evs1 p rv3 evs3)
  have p1: "\<forall>e\<in>set evs1. phase_of e = 0" and p2: "\<forall>e\<in>set p. phase_of e = 1"
    and p3: "\<forall>e\<in>set evs3. phase_of e = 2"
    using show_transaction_sizes_calls[OF hash_failed(1)] hash_failed(2)
      check_pkg_hashes_phase[OF hash_failed(3)] by simp_all
  have "\<forall>e\<in>set evs. phase_of e \<noteq> 4" using p1 p2 p3 hash_failed(7) by auto
  then have "configured evs = [] \<and> (\<forall>e\<in>set evs. phase_of e \<noteq> 4)"
    by (simp add: configured_other_phase)
  with hash_failed(4,5) show ?thesis by simp
next
  case (unpack_stopped evs1 p evs3 evs4)
  have p1: "\<forall>e\<in>set evs1. phase_of e = 0" and p2: "\<forall>e\<in>set p. phase_of e = 1"
    and p3: "\<forall>e\<in>set evs3. phase_of e = 2" and p4: "\<forall>e\<in>set evs4. phase_of e = 3"
    using show_transaction_sizes_calls[OF unpack_stopped(1)] unpack_stopped(2)
      check_pkg_hashes_phase[OF unpack_stopped(3)] unpack_loop_phase[OF unpack_stopped(4)]
    by simp_all
  have n4: "\<forall>e\<in>set evs. phase_of e \<noteq> 4" using p1 p2 p3 p4 unpack_stopped(5) by auto
  then have c0: "configured evs = []" by (simp add: configured_other_phase)
  have "r \<noteq> Inr 0"
  proof
    assume r0: "r = Inr 0"
    from unpack_stopped(4) r0 have "unpack_loop c tx (iter tx) False False
        (h @ evs1 @ p @ evs3) = (Some (Inr 0), objs', evs4)" by simp
    from unpack_loop_nonzero[OF this] show False by simp
  qed
  with c0 n4 show ?thesis by simp
next
  case (finished evs1 p evs3 evs4 rv5 evs5)
  have p1: "\<forall>e\<in>set evs1. phase_of e = 0" and p2: "\<forall>e\<in>set p. phase_of e = 1"
    and p3: "\<forall>e\<in>set evs3. phase_of e = 2" and p4: "\<forall>e\<in>set evs4. phase_of e = 3"
    and p5: "\<forall>e\<in>set evs5. phase_of e = 4"
    using show_transaction_sizes_calls[OF finished(1)] finished(2)
      check_pkg_hashes_phase[OF finished(3)] unpack_loop_phase[OF finished(4)]
      configure_loop_phase[OF finished(5)]
    by simp_all
  have "configured evs1 = []" "configured p = []" "configured evs3 = []" "configured evs4 = []"
    using p1 p2 p3 p4 by (simp_all add: configured_other_phase)
  then have ce: "configured evs = configured evs5"
    using finished(7) by (simp add: configured_append)
  have nm: "names objs' = names (iter tx)"
    using unpack_loop_names[OF finished(4)] by (simp add: names_def)
  have a: "prefix (configured evs) (names (iter tx))"
    using configure_loop_prefix[OF finished(5)] ce nm by (simp add: names_def)
  have b: "configured evs = names (iter tx) \<and>
           (\<forall>obj\<in>set objs'. state obj = Some XBPS_PKG_STATE_UNPACKED)" if "r = Inr 0"
  proof -
    from that finished(6) have "rv5 = 0" by simp
    with finished(5) have "configure_loop c objs' (h @ evs1 @ p @ evs3 @ evs4) = (0, evs5)"
      by simp
    from configure_loop_ok[OF this] ce nm unpack_loop_done[OF finished(4)]
    show ?thesis by (simp add: names_def)
  qed
  have c: "\<forall>e\<in>set evs. phase_of e = 4 \<and> call_rv e \<noteq> 0 \<longrightarrow>
            r = Inr (call_rv e) \<and> e = last evs"
  proof (intro ballI impI)
    fix e assume e: "e \<in> set evs" and f: "phase_of e = 4 \<and> call_rv e \<noteq> 0"
    then have in5: "e \<in> set evs5" using p1 p2 p3 p4 finished(7) by auto
    from configure_loop_stop[OF finished(5) in5] f
    have s: "rv5 = call_rv e" "e = last evs5" by simp_all
    have "e = last evs"
      using last_append_right[OF in5 s(2), of "evs1 @ p @ evs3 @ evs4"] finished(7) by simp
    with s finished(6) show "r = Inr (call_rv e) \<and> e = last evs" by simp
  qed
  from a b c show ?thesis by simp
qed

lemma unpack_loop_stop:
  assumes "unpack_loop c tx objs ess isdep h = (res, objs', evs)"
    and "e \<in> set evs" and "call_rv e \<noteq> 0"
  shows "e = last evs \<and> res \<noteq> None"
proof -
  have "e \<notin> set (butlast evs)" using unpack_loop_butlast[OF assms(1)] assms(3) by auto
  with assms(2) have "e = last evs" by (rule last_if_not_butlast)
  moreover have "res \<noteq> None"
  proof
    assume "res = None"
    with assms(1) have "unpack_loop c tx objs ess isdep h = (None, objs', evs)" by simp
    from unpack_loop_done[OF this] assms(2,3) show False by simp
  qed
  ultimately show ?thesis by simp
qed

lemma registered_other_phase: "\<forall>e\<in>set xs. phase_of e \<noteq> 3 \<Longrightarrow> registered xs = []"
  by (induction xs rule: registered.induct) simp_all

lemma exec_transaction_registered:
  assumes "exec_transaction c tx h = (r, objs', evs)" and "(obj, d) \<in> set (registered evs)"
  shows "\<exists>res h' evs4. unpack_loop c tx (iter tx) False False h' = (res, objs', evs4) \<and>
           (obj, d) \<in> set (registered evs4)"
  using assms(1)
proof (cases rule: exec_transaction_elims)
  case (sizes_failed rv1)
  have "\<forall>e\<in>set evs. phase_of e \<noteq> 3"
    using show_transaction_sizes_calls[OF sizes_failed(1)] by simp
  with assms(2) show ?thesis by (simp add: registered_other_phase)
next
  case (declined evs1)
  have "\<forall>e\<in>set evs. phase_of e \<noteq> 3"
    using show_transaction_sizes_calls[OF declined(1)] declined(4) by auto
  with assms(2) show ?thesis by (simp add: registered_other_phase)
next
  case (hash_failed evs1 p rv3 evs3)
  have "\<forall>e\<in>set evs. phase_of e \<noteq> 3"
    using show_transaction_sizes_calls[OF hash_failed(1)] hash_failed(2,7)
      check_pkg_hashes_phase[OF hash_failed(3)] by auto
  with assms(2) show ?thesis by (simp add: registered_other_phase)
next
  case (unpack_stopped evs1 p evs3 evs4)
  have "registered evs1 = []" "registered p = []" "registered evs3 = []"
    using show_transaction_sizes_calls[OF unpack_stopped(1)] unpack_stopped(2)
      check_pkg_hashes_phase[OF unpack_stopped(3)]
    by (simp_all add: registered_other_phase)
  with assms(2) unpack_stopped(5) have "(obj, d) \<in> set (registered evs4)"
    by (simp add: registered_append)
  with unpack_stopped(4) show ?thesis by blast
next
  case (finished evs1 p evs3 evs4 rv5 evs5)
  have "registered evs1 = []" "registered p = []" "registered evs3 = []"
    "registered evs5 = []"
    using show_transaction_sizes_calls[OF finished(1)] finished(2)
      check_pkg_hashes_phase[OF finished(3)] configure_loop_phase[OF finished(5)]
    by (simp_all add: registered_other_phase)
  with assms(2) finished(7) have "(obj, d) \<in> set (registered evs4)"
    by (simp add: registered_append)
  with finished(4) show ?thesis by blast
qed

lemma show_transaction_sizes_rv:
  "show_transaction_sizes c objs descr h = (rv, evs) \<Longrightarrow>
     (rv = 0 \<or> rv = -1) \<and> (rv = 0 \<longleftrightarrow> (\<forall>e\<in>set evs. call_rv e \<noteq> -1))"
  by (auto simp: show_transaction_sizes_def Let_def split: prod.splits if_splits)

lemma check_pkg_hashes_rv:
  "check_pkg_hashes c objs h = (rv, hs) \<Longrightarrow>
     (rv = 0 \<or> rv = -1 \<or> rv = EINVAL) \<and>
     (rv = -1 \<longleftrightarrow> (\<exists>e\<in>set hs. call_rv e \<noteq> 0)) \<and>
     (rv = EINVAL \<longrightarrow> (\<exists>obj\<in>set objs. state obj = None))"
proof (induction objs arbitrary: h rv hs)
  case Nil
  then show ?case by (simp add: EINVAL_def)
next
  case (Cons obj objs)
  show ?case
  proof (cases "state obj")
    case None
    with Cons.prems show ?thesis
      by (auto simp: xbps_get_pkg_state_dictionary_def EINVAL_def)
  next
    case (Some st)
    show ?thesis
    proof (cases "st = XBPS_PKG_STATE_UNPACKED")
      case True
      with Some Cons.prems have "check_pkg_hashes c objs h = (rv, hs)"
        by (simp add: xbps_get_pkg_state_dictionary_def)
      from Cons.IH[OF this] show ?thesis by auto
    next
      case False
      define r where "r = xbps_check_pkg_file_hash c h obj (repository obj)"
      define ev where "ev = EvCheckHash obj (repository obj) r"
      show ?thesis
      proof (cases "r = 0")
        case True
        obtain rv' hs' where rest: "check_pkg_hashes c objs (h @ [ev]) = (rv', hs')"
          by (cases "check_pkg_hashes c objs (h @ [ev])") auto
        with True Some False Cons.prems have eq: "rv = rv'" "hs = ev # hs'"
          by (auto simp: xbps_get_pkg_state_dictionary_def Let_def r_def ev_def)
        have "call_rv ev = 0" using True by (simp add: ev_def)
        with Cons.IH[OF rest] eq show ?thesis by auto
      next
        case r: False
        with Some False Cons.prems have eq: "rv = -1" "hs = [ev]"
          by (auto simp: xbps_get_pkg_state_dictionary_def Let_def r_def ev_def
              split: if_splits)
        have "call_rv ev \<noteq> 0" using r by (simp add: ev_def)
        with eq show ?thesis by (simp add: EINVAL_def)
      qed
    qed
  qed
qed

lemma check_pkg_hashes_all_unpacked:
  "\<forall>obj\<in>set objs. \<not> not_unpacked obj \<Longrightarrow> check_pkg_hashes c objs h = (0, [])"
  by (induction objs)
     (auto simp: not_unpacked_def xbps_get_pkg_state_dictionary_def split: option.splits)

lemma configure_loop_rv:
  "configure_loop c objs h = (rv, cs) \<Longrightarrow> (rv \<noteq> 0 \<longleftrightarrow> (\<exists>e\<in>set cs. call_rv e \<noteq> 0))"
proof (induction objs arbitrary: h rv cs)
  case Nil
  then show ?case by simp
next
  case (Cons obj objs)
  define r where "r = xbps_configure_pkg c h (pkgname obj) (version obj)"
  define ev where "ev = EvConfigure (pkgname obj) (version obj) r"
  show ?case
  proof (cases "r = 0")
    case True
    obtain rv' cs' where rest: "configure_loop c objs (h @ [ev]) = (rv', cs')"
      by (cases "configure_loop c objs (h @ [ev])") auto
    with True Cons.prems have eq: "rv = rv'" "cs = ev # cs'"
      by (auto simp: Let_def r_def ev_def)
    have "call_rv ev = 0" using True by (simp add: ev_def)
    with Cons.IH[OF rest] eq show ?thesis by auto
  next
    case False
    with Cons.prems have "rv = r" "cs = [ev]"
      by (auto simp: Let_def r_def ev_def split: if_splits)
    with False show ?thesis by (simp add: ev_def)
  qed
qed

lemma unpack_one_stopped_unchanged:
  assumes "unpack_one c tx obj ess isdep h = (Some r, obj', ess', isdep', evs)"
    and "trans_type tx = TRANS_ONE \<longrightarrow> originpkgname tx \<noteq> None"
  shows "obj' = obj \<and> not_unpacked obj"
  using assms(1)
proof (cases rule: unpack_one_elims)
  case origin_null
  with assms(2) show ?thesis by (auto simp: mark_isdep_def split: if_splits option.splits)
next
  case (no_state d)
  then show ?thesis by (simp add: not_unpacked_def)
next
  case (went_on d upd evs1 r2 evs2)
  from went_on(5) went_on(2,6) show ?thesis
    by (cases rule: unpack_register_elims) auto
qed auto

lemma unpack_loop_stopped_not_unpacked:
  assumes "trans_type tx = TRANS_ONE \<longrightarrow> originpkgname tx \<noteq> None"
  shows "unpack_loop c tx objs ess isdep h = (Some r, objs', evs) \<Longrightarrow>
           \<exists>obj\<in>set objs'. not_unpacked obj"
proof (induction objs arbitrary: ess isdep h objs' evs)
  case Nil
  then show ?case by simp
next
  case (Cons obj objs)
  from Cons.prems show ?case
  proof (cases rule: unpack_loop_Cons_elims)
    case (stop r' o1 e1 i1)
    from unpack_one_stopped_unchanged[OF stop(1) assms] stop(3) show ?thesis by simp
  next
    case (go o1 e1 i1 evs1 os2 evs2)
    from Cons.IH[OF go(2)] go(3) show ?thesis by auto
  qed
qed

lemma unpack_loop_registered_all:
  "unpack_loop c tx objs ess isdep h = (None, objs', evs) \<Longrightarrow>
     map fst (registered evs) = filter not_unpacked objs"
proof (induction objs arbitrary: ess isdep h objs' evs)
  case Nil
  then show ?case by simp
next
  case (Cons obj objs)
  from Cons.prems show ?case
  proof (cases rule: unpack_loop_Cons_elims)
    case (stop r' o1 e1 i1)
    then show ?thesis by simp
  next
    case (go o1 e1 i1 evs1 os2 evs2)
    show ?thesis
    proof (cases "not_unpacked obj")
      case True
      from unpack_one_went_on_registered[OF go(1) True] obtain d where
        "registered evs1 = [(obj, d)]" by auto
      with Cons.IH[OF go(2)] go(4) True show ?thesis by (simp add: registered_append)
    next
      case False
      with unpack_one_isdep[OF go(1)] have "evs1 = []" by simp
      with Cons.IH[OF go(2)] go(4) False show ?thesis by simp
    qed
  qed
qed

lemma check_pkg_hashes_calls:
  "check_pkg_hashes c objs h = (rv, hs) \<Longrightarrow> i < length hs \<Longrightarrow>
     hs ! i = EvCheckHash (filter not_unpacked objs ! i)
                (repository (filter not_unpacked objs ! i))
                (xbps_check_pkg_file_hash c (h @ take i hs) (filter not_unpacked objs ! i)
                   (repository (filter not_unpacked objs ! i)))"
proof (induction objs arbitrary: h rv hs i)
  case Nil
  then show ?case by simp
next
  case (Cons obj objs)
  show ?case
  proof (cases "state obj")
    case None
    with Cons.prems show ?thesis
      by (auto simp: xbps_get_pkg_state_dictionary_def)
  next
    case (Some st)
    show ?thesis
    proof (cases "st = XBPS_PKG_STATE_UNPACKED")
      case True
      with Some Cons.prems have "check_pkg_hashes c objs h = (rv, hs)"
        by (simp add: xbps_get_pkg_state_dictionary_def)
      from Cons.IH[OF this Cons.prems(2)] Some True show ?thesis
        by (simp add: not_unpacked_def)
    next
      case False
      with Some have nu: "not_unpacked obj" by (simp add: not_unpacked_def)
      define r where "r = xbps_check_pkg_file_hash c h obj (repository obj)"
      define ev where "ev = EvCheckHash obj (repository obj) r"
      show ?thesis
      proof (cases "r = 0")
        case True
        obtain rv' hs' where rest: "check_pkg_hashes c objs (h @ [ev]) = (rv', hs')"
          by (cases "check_pkg_hashes c objs (h @ [ev])") auto
        with True Some False Cons.prems have eq: "rv = rv'" "hs = ev # hs'"
          by (auto simp: xbps_get_pkg_state_dictionary_def Let_def r_def ev_def)
        show ?thesis
        proof (cases i)
          case 0
          with eq nu show ?thesis by (simp add: ev_def r_def)
        next
          case (Suc j)
          with Cons.prems(2) eq have "j < length hs'" by simp
          from Cons.IH[OF rest this] Suc eq nu show ?thesis by simp
        qed
      next
        case r: False
        with Some False Cons.prems have eq: "hs = [ev]"
          by (auto simp: xbps_get_pkg_state_dictionary_def Let_def r_def ev_def
              split: if_splits)
        with Cons.prems(2) nu show ?thesis by (simp add: ev_def r_def)
      qed
    qed
  qed
qed

lemma configure_loop_calls:
  "configure_loop c objs h = (rv, cs) \<Longrightarrow> i < length cs \<Longrightarrow>
     cs ! i = EvConfigure (pkgname (objs ! i)) (version (objs ! i))
                (xbps_configure_pkg c (h @ take i cs) (pkgname (objs ! i)) (version (objs ! i)))"
proof (induction objs arbitrary: h rv cs i)
  case Nil
  then show ?case by simp
next
  case (Cons obj objs)
  define r where "r = xbps_configure_pkg c h (pkgname obj) (version obj)"
  define ev where "ev = EvConfigure (pkgname obj) (version obj) r"
  show ?case
  proof (cases "r = 0")
    case True
    obtain rv' cs' where rest: "configure_loop c objs (h @ [ev]) = (rv', cs')"
      by (cases "configure_loop c objs (h @ [ev])") auto
    with True Cons.prems have eq: "rv = rv'" "cs = ev # cs'"
      by (auto simp: Let_def r_def ev_def)
    show ?thesis
    proof (cases i)
      case 0
      with eq show ?thesis by (simp add: ev_def r_def)
    next
      case (Suc j)
      with Cons.prems(2) eq have "j < length cs'" by simp
      from Cons.IH[OF rest this] Suc eq show ?thesis by simp
    qed
  next
    case False
    with Cons.prems have "cs = [ev]"
      by (auto simp: Let_def r_def ev_def split: if_splits)
    with Cons.prems(2) show ?thesis by (simp add: ev_def r_def)
  qed
qed

lemma configure_loop_nonempty:
  "configure_loop c objs h = (rv, cs) \<Longrightarrow> objs \<noteq> [] \<Longrightarrow> cs \<noteq> []"
  by (cases objs) (auto simp: Let_def split: if_splits prod.splits)

lemma unpack_loop_calls_ok:
  assumes "unpack_loop c tx objs ess isdep h = (None, objs', evs)"
  shows "\<forall>e\<in>set evs. call_rv e = 0"
proof (rule ballI, rule ccontr)
  fix e assume "e \<in> set evs" "call_rv e \<noteq> 0"
  from unpack_loop_stop[OF assms this] show False by simp
qed


lemma exec_transaction_gate_complete:
  assumes "exec_transaction c tx h = (r, objs', evs)"
    and "\<forall>e\<in>set evs. phase_of e = 0 \<longrightarrow> call_rv e \<noteq> -1"
    and "force tx \<or> EvNoYes True \<in> set evs"
    and "\<forall>obj\<in>set (iter tx). state obj \<noteq> None"
    and "\<forall>e\<in>set evs. phase_of e = 2 \<longrightarrow> call_rv e = 0"
  shows "hashed evs = filter not_unpacked (iter tx)"
  using assms(1)
proof (cases rule: exec_transaction_elims)
  case (sizes_failed rv1)
  from show_transaction_sizes_calls[OF sizes_failed(1)]
  have p: "\<forall>e\<in>set evs. phase_of e = 0" by simp
  from show_transaction_sizes_rv[OF sizes_failed(1)] sizes_failed(2)
  have "\<exists>e\<in>set evs. call_rv e = -1" by auto
  with p assms(2) show ?thesis by auto
next
  case (declined evs1)
  from show_transaction_sizes_calls[OF declined(1)]
  have "\<forall>e\<in>set evs1. phase_of e = 0" by simp
  with declined(2,4) assms(3) show ?thesis by auto
next
  case (hash_failed evs1 p rv3 evs3)
  have p3: "\<forall>e\<in>set evs3. phase_of e = 2"
    using check_pkg_hashes_phase[OF hash_failed(3)] by simp
  with assms(5) hash_failed(7) have "\<forall>e\<in>set evs3. call_rv e = 0" by simp
  with check_pkg_hashes_rv[OF hash_failed(3)] assms(4) hash_failed(4)
  show ?thesis by auto
next
  case (unpack_stopped evs1 p evs3 evs4)
  have p1: "\<forall>e\<in>set evs1. phase_of e = 0" and p2: "\<forall>e\<in>set p. phase_of e = 1"
    and p4: "\<forall>e\<in>set evs4. phase_of e = 3"
    using show_transaction_sizes_calls[OF unpack_stopped(1)] unpack_stopped(2)
      unpack_loop_phase[OF unpack_stopped(4)]
    by simp_all
  have "hashed evs1 = []" "hashed p = []" "hashed evs4 = []"
    using p1 p2 p4 by (simp_all add: hashed_other_phase)
  then have "hashed evs = hashed evs3" using unpack_stopped(5) by (simp add: hashed_append)
  with check_pkg_hashes_ok[OF unpack_stopped(3)] show ?thesis by simp
next
  case (finished evs1 p evs3 evs4 rv5 evs5)
  have p1: "\<forall>e\<in>set evs1. phase_of e = 0" and p2: "\<forall>e\<in>set p. phase_of e = 1"
    and p4: "\<forall>e\<in>set evs4. phase_of e = 3" and p5: "\<forall>e\<in>set evs5. phase_of e = 4"
    using show_transaction_sizes_calls[OF finished(1)] finished(2)
      unpack_loop_phase[OF finished(4)] configure_loop_phase[OF finished(5)]
    by simp_all
  have "hashed evs1 = []" "hashed p = []" "hashed evs4 = []" "hashed evs5 = []"
    using p1 p2 p4 p5 by (simp_all add: hashed_other_phase)
  then have "hashed evs = hashed evs3" using finished(7) by (simp add: hashed_append)
  with check_pkg_hashes_ok[OF finished(3)] show ?thesis by simp
qed

lemma exec_transaction_applied:
  assumes "exec_transaction c tx h = (r, objs', evs)" and "e \<in> set evs" and "phase_of e = 4"
  shows "map fst (registered evs) = filter not_unpacked (iter tx) \<and>
         (\<forall>obj\<in>set objs'. state obj = Some XBPS_PKG_STATE_UNPACKED) \<and>
         (\<forall>e\<in>set evs. phase_of e = 3 \<longrightarrow> call_rv e = 0)"
  using assms(1)
proof (cases rule: exec_transaction_elims)
  case (sizes_failed rv1)
  from show_transaction_sizes_calls[OF sizes_failed(1)] assms(2,3) show ?thesis by auto
next
  case (declined evs1)
  from show_transaction_sizes_calls[OF declined(1)] declined(4) assms(2,3) show ?thesis by auto
next
  case (hash_failed evs1 p rv3 evs3)
  from show_transaction_sizes_calls[OF hash_failed(1)] hash_failed(2,7)
    check_pkg_hashes_phase[OF hash_failed(3)] assms(2,3) show ?thesis by auto
next
  case (unpack_stopped evs1 p evs3 evs4)
  from show_transaction_sizes_calls[OF unpack_stopped(1)] unpack_stopped(2,5)
    check_pkg_hashes_phase[OF unpack_stopped(3)] unpack_loop_phase[OF unpack_stopped(4)]
    assms(2,3) show ?thesis by auto
next
  case (finished evs1 p evs3 evs4 rv5 evs5)
  have p1: "\<forall>e\<in>set evs1. phase_of e = 0" and p2: "\<forall>e\<in>set p. phase_of e = 1"
    and p3: "\<forall>e\<in>set evs3. phase_of e = 2" and p4: "\<forall>e\<in>set evs4. phase_of e = 3"
    and p5: "\<forall>e\<in>set evs5. phase_of e = 4"
    using show_transaction_sizes_calls[OF finished(1)] finished(2)
      check_pkg_hashes_phase[OF finished(3)] unpack_loop_phase[OF finished(4)]
      configure_loop_phase[OF finished(5)]
    by simp_all
  have "registered evs1 = []" "registered p = []" "registered evs3 = []" "registered evs5 = []"
    using p1 p2 p3 p5 by (simp_all add: registered_other_phase)
  then have "registered evs = registered evs4" using finished(7) by (simp add: registered_append)
  with unpack_loop_registered_all[OF finished(4)]
  have a: "map fst (registered evs) = filter not_unpacked (iter tx)" by simp
  have "\<forall>e\<in>set evs. phase_of e = 3 \<longrightarrow> e \<in> set evs4"
    using p1 p2 p3 p5 finished(7) by auto
  with unpack_loop_calls_ok[OF finished(4)]
  have b: "\<forall>e\<in>set evs. phase_of e = 3 \<longrightarrow> call_rv e = 0" by simp
  from a b unpack_loop_done[OF finished(4)] show ?thesis by simp
qed

lemma exec_transaction_complete:
  assumes "exec_transaction c tx h = (r, objs', evs)"
    and "\<forall>e\<in>set evs. phase_of e = 0 \<longrightarrow> call_rv e \<noteq> -1"
    and "force tx \<or> EvNoYes True \<in> set evs"
    and "trans_type tx = TRANS_ONE \<longrightarrow> originpkgname tx \<noteq> None"
    and "\<forall>obj\<in>set objs'. state obj = Some XBPS_PKG_STATE_UNPACKED"
  shows "hashed evs = filter not_unpacked (iter tx) \<and>
         map fst (registered evs) = filter not_unpacked (iter tx) \<and>
         (iter tx \<noteq> [] \<longrightarrow> configured evs \<noteq> []) \<and>
         (\<exists>rv. r = Inr rv) \<and>
         ((\<forall>e\<in>set evs. phase_of e = 4 \<longrightarrow> call_rv e = 0) \<longrightarrow>
            r = Inr 0 \<and> configured evs = names (iter tx))"
  using assms(1)
proof (cases rule: exec_transaction_elims)
  case (sizes_failed rv1)
  from show_transaction_sizes_calls[OF sizes_failed(1)]
  have p: "\<forall>e\<in>set evs. phase_of e = 0" by simp
  from show_transaction_sizes_rv[OF sizes_failed(1)] sizes_failed(2)
  have "\<exists>e\<in>set evs. call_rv e = -1" by auto
  with p assms(2) show ?thesis by auto
next
  case (declined evs1)
  from show_transaction_sizes_calls[OF declined(1)]
  have "\<forall>e\<in>set evs1. phase_of e = 0" by simp
  with declined(2,4) assms(3) show ?thesis by auto
next
  case (hash_failed evs1 p rv3 evs3)
  from assms(5) hash_failed(6) have "\<forall>obj\<in>set (iter tx). \<not> not_unpacked obj"
    by (simp add: not_unpacked_def)
  from check_pkg_hashes_all_unpacked[OF this, of c "h @ evs1 @ p"] hash_failed(3,4)
  show ?thesis by simp
next
  case (unpack_stopped evs1 p evs3 evs4)
  from unpack_loop_stopped_not_unpacked[OF assms(4) unpack_stopped(4)] assms(5)
  show ?thesis by (auto simp: not_unpacked_def)
next
  case (finished evs1 p evs3 evs4 rv5 evs5)
  have p1: "\<forall>e\<in>set evs1. phase_of e = 0" and p2: "\<forall>e\<in>set p. phase_of e = 1"
    and p3: "\<forall>e\<in>set evs3. phase_of e = 2" and p4: "\<forall>e\<in>set evs4. phase_of e = 3"
    and p5: "\<forall>e\<in>set evs5. phase_of e = 4"
    using show_transaction_sizes_calls[OF finished(1)] finished(2)
      check_pkg_hashes_phase[OF finished(3)] unpack_loop_phase[OF finished(4)]
      configure_loop_phase[OF finished(5)]
    by simp_all
  have "hashed evs1 = []" "hashed p = []" "hashed evs4 = []" "hashed evs5 = []"
    using p1 p2 p4 p5 by (simp_all add: hashed_other_phase)
  then have "hashed evs = hashed evs3" using finished(7) by (simp add: hashed_append)
  with check_pkg_hashes_ok[OF finished(3)]
  have a: "hashed evs = filter not_unpacked (iter tx)" by simp
  have "registered evs1 = []" "registered p = []" "registered evs3 = []" "registered evs5 = []"
    using p1 p2 p3 p5 by (simp_all add: registered_other_phase)
  then have "registered evs = registered evs4" using finished(7) by (simp add: registered_append)
  with unpack_loop_registered_all[OF finished(4)]
  have b: "map fst (registered evs) = filter not_unpacked (iter tx)" by simp
  have "configured evs1 = []" "configured p = []" "configured evs3 = []" "configured evs4 = []"
    using p1 p2 p3 p4 by (simp_all add: configured_other_phase)
  then have ce: "configured evs = configured evs5"
    using finished(7) by (simp add: configured_append)
  have nm: "names objs' = names (iter tx)"
    using unpack_loop_names[OF finished(4)] by (simp add: names_def)
  have c: "configured evs \<noteq> []" if "iter tx \<noteq> []"
  proof -
    from that nm have "objs' \<noteq> []" by (auto simp: names_def)
    from configure_loop_nonempty[OF finished(5) this] p5 obtain e rest where
      "evs5 = e # rest" "phase_of e = 4" by (cases evs5) auto
    then have "configured evs5 \<noteq> []" by (cases e) auto
    with ce show ?thesis by simp
  qed
  have d: "r = Inr 0 \<and> configured evs = names (iter tx)"
    if "\<forall>e\<in>set evs. phase_of e = 4 \<longrightarrow> call_rv e = 0"
  proof -
    from that p5 finished(7) have "\<forall>e\<in>set evs5. call_rv e = 0" by simp
    with configure_loop_rv[OF finished(5)] have "rv5 = 0" by auto
    with finished(5) have "configure_loop c objs' (h @ evs1 @ p @ evs3 @ evs4) = (0, evs5)"
      by simp
    from configure_loop_ok[OF this] ce nm \<open>rv5 = 0\<close> finished(6)
    show ?thesis by (simp add: names_def)
  qed
  from a b c d finished(6) show ?thesis by simp
qed

lemma configure_loop_length:
  "configure_loop c objs h = (rv, cs) \<Longrightarrow> length cs \<le> length objs"
  by (induction objs arbitrary: h rv cs) (auto simp: Let_def split: if_splits prod.splits)

lemma names_nth:
  "names objs1 = names objs \<Longrightarrow> i < length objs1 \<Longrightarrow>
     pkgname (objs1 ! i) = fst (names objs ! i) \<and> version (objs1 ! i) = snd (names objs ! i)"
proof -
  assume a: "names objs1 = names objs" and b: "i < length objs1"
  from b have "names objs1 ! i = (pkgname (objs1 ! i), version (objs1 ! i))"
    by (simp add: names_def)
  with a show ?thesis by simp
qed



section \<open>The claims\<close>

subsection \<open>C1: the order of the phases\<close>





subsection \<open>C2: the dependency flag of a registration\<close>

text \<open>
  C2, as amended. In a transaction of type \<open>TRANS_ONE\<close> whose origin is set, every
  package that is registered and whose name is not the origin's is registered as a
  dependency: \<open>isdep\<close> is set again at every such package, not at the first only.
  \<open>isdep\<close> is cleared after every registration, so when no package of the array is
  unpacked already (none is skipped) a package with the origin's name is registered as
  not a dependency: then a package is registered as a dependency exactly when its name
  is not the origin's.
\<close>

theorem registered_as_dependency:
  assumes "exec_transaction c tx h = (r, objs', evs)"
    and "trans_type tx = TRANS_ONE" and "originpkgname tx = Some orig"
    and "(obj, d) \<in> set (registered evs)"
  shows "(pkgname obj \<noteq> orig \<longrightarrow> d) \<and>
         ((\<forall>x\<in>set (iter tx). not_unpacked x) \<longrightarrow> d = (pkgname obj \<noteq> orig))"
proof -
  from exec_transaction_registered[OF assms(1,4)] obtain res h' evs4 where
    u: "unpack_loop c tx (iter tx) False False h' = (res, objs', evs4)"
    and i: "(obj, d) \<in> set (registered evs4)" by blast
  from unpack_loop_registered[OF assms(2,3) u i] show ?thesis by simp
qed

text \<open>
  The theorem at the forced installation of "foo" with its dependencies "a" and "b":
  both "a" and "b" are registered as dependencies, "foo" is not.
\<close>

theorem registered_as_dependency_witness:
  "exec_transaction ok_collab
       (trans_one [mkpkg ''foo'' ''1.0'', mkpkg ''a'' ''1'', mkpkg ''b'' ''2''] True) [] =
     (Inr 0,
      [(mkpkg ''foo'' ''1.0'')\<lparr>state := Some XBPS_PKG_STATE_UNPACKED\<rparr>,
       (mkpkg ''a'' ''1'')\<lparr>state := Some XBPS_PKG_STATE_UNPACKED\<rparr>,
       (mkpkg ''b'' ''2'')\<lparr>state := Some XBPS_PKG_STATE_UNPACKED\<rparr>],
      [EvPkgList ''installed'' ''  foo-1.0 a-1 b-2 '', EvHumanize 300 0, EvHumanize 900 0,
       EvCheckHash (mkpkg ''foo'' ''1.0'') ''/repo'' 0,
       EvCheckHash (mkpkg ''a'' ''1'') ''/repo'' 0,
       EvCheckHash (mkpkg ''b'' ''2'') ''/repo'' 0,
       EvUnpack (mkpkg ''foo'' ''1.0'') False 0,
       EvRegister (mkpkg ''foo'' ''1.0'') False 0,
       EvSetState (mkpkg ''foo'' ''1.0'') XBPS_PKG_STATE_UNPACKED 0,
       EvUnpack (mkpkg ''a'' ''1'') False 0,
       EvRegister (mkpkg ''a'' ''1'') True 0,
       EvSetState (mkpkg ''a'' ''1'') XBPS_PKG_STATE_UNPACKED 0,
       EvUnpack (mkpkg ''b'' ''2'') False 0,
       EvRegister (mkpkg ''b'' ''2'') True 0,
       EvSetState (mkpkg ''b'' ''2'') XBPS_PKG_STATE_UNPACKED 0,
       EvConfigure ''foo'' ''1.0'' 0, EvConfigure ''a'' ''1'' 0,
       EvConfigure ''b'' ''2'' 0]) \<and>
   trans_type (trans_one [mkpkg ''foo'' ''1.0'', mkpkg ''a'' ''1'', mkpkg ''b'' ''2''] True) =
     TRANS_ONE \<and>
   originpkgname (trans_one [mkpkg ''foo'' ''1.0'', mkpkg ''a'' ''1'', mkpkg ''b'' ''2''] True) =
     Some ''foo'' \<and>
   (mkpkg ''b'' ''2'', True) \<in> set (registered (snd (snd (exec_transaction ok_collab
       (trans_one [mkpkg ''foo'' ''1.0'', mkpkg ''a'' ''1'', mkpkg ''b'' ''2''] True) [])))) \<and>
   pkgname (mkpkg ''b'' ''2'') \<noteq> ''foo''"
proof -
  let ?tx = "trans_one [mkpkg ''foo'' ''1.0'', mkpkg ''a'' ''1'', mkpkg ''b'' ''2''] True"
  let ?objs' = "[(mkpkg ''foo'' ''1.0'')\<lparr>state := Some XBPS_PKG_STATE_UNPACKED\<rparr>,
       (mkpkg ''a'' ''1'')\<lparr>state := Some XBPS_PKG_STATE_UNPACKED\<rparr>,
       (mkpkg ''b'' ''2'')\<lparr>state := Some XBPS_PKG_STATE_UNPACKED\<rparr>]"
  let ?evs = "[EvPkgList ''installed'' ''  foo-1.0 a-1 b-2 '', EvHumanize 300 0,
       EvHumanize 900 0,
       EvCheckHash (mkpkg ''foo'' ''1.0'') ''/repo'' 0,
       EvCheckHash (mkpkg ''a'' ''1'') ''/repo'' 0,
       EvCheckHash (mkpkg ''b'' ''2'') ''/repo'' 0,
       EvUnpack (mkpkg ''foo'' ''1.0'') False 0,
       EvRegister (mkpkg ''foo'' ''1.0'') False 0,
       EvSetState (mkpkg ''foo'' ''1.0'') XBPS_PKG_STATE_UNPACKED 0,
       EvUnpack (mkpkg ''a'' ''1'') False 0,
       EvRegister (mkpkg ''a'' ''1'') True 0,
       EvSetState (mkpkg ''a'' ''1'') XBPS_PKG_STATE_UNPACKED 0,
       EvUnpack (mkpkg ''b'' ''2'') False 0,
       EvRegister (mkpkg ''b'' ''2'') True 0,
       EvSetState (mkpkg ''b'' ''2'') XBPS_PKG_STATE_UNPACKED 0,
       EvConfigure ''foo'' ''1.0'' 0, EvConfigure ''a'' ''1'' 0,
       EvConfigure ''b'' ''2'' 0]"
  have run: "exec_transaction ok_collab ?tx [] = (Inr 0, ?objs', ?evs)"
    by (simp add: run_defs)
  have t: "trans_type ?tx = TRANS_ONE" and o: "originpkgname ?tx = Some ''foo''"
    by (simp_all add: trans_one_def)
  have i: "(mkpkg ''b'' ''2'', True) \<in> set (registered ?evs)" by simp
  have n: "\<forall>x\<in>set (iter ?tx). not_unpacked x"
    by (simp add: trans_one_def not_unpacked_def mkpkg_def)
  from registered_as_dependency[OF run t o i] n
  have "pkgname (mkpkg ''b'' ''2'') \<noteq> ''foo''"
    by simp
  with run t o i show ?thesis by simp
qed

text \<open>
  C2 as stated fails: in that run "b", which is not the first package after the origin
  that is not the origin, is registered as a dependency, while the claim has it
  registered as not a dependency.
\<close>

theorem first_dependency_only_counterexample:
  "map (\<lambda>(obj, d). (pkgname obj, d))
     (registered (snd (snd (exec_transaction ok_collab
        (trans_one [mkpkg ''foo'' ''1.0'', mkpkg ''a'' ''1'', mkpkg ''b'' ''2''] True) [])))) =
   [(''foo'', False), (''a'', True), (''b'', True)]"
  by (simp add: run_defs)

subsection \<open>C3: the first loop stops at the first failure\<close>

text \<open>
  C3. Let a call of the first loop fail in a run of \<open>exec_transaction\<close> (a remove, an
  unpack, a register or a set-state call that does not return 0). Then there is a
  position \<open>K\<close> of the array such that: the call is about the package at \<open>K\<close>, which
  was not unpacked; every package before \<open>K\<close> is unpacked when \<open>exec_transaction\<close>
  returns; the package at \<open>K\<close> and every package after it is as it was before the run;
  every call of the loop was about a package at \<open>K\<close> or before it, and the failing
  call is the last call of the run, so nothing after \<open>K\<close> was attempted and no package
  was configured; and \<open>exec_transaction\<close> returns the value of the failing call.
\<close>

theorem unpack_fail_fast:
  assumes "exec_transaction c tx h = (r, objs', evs)"
    and "e \<in> set evs" and "phase_of e = 3" and "call_rv e \<noteq> 0"
  shows "\<exists>K<length (iter tx).
           about e (iter tx ! K) \<and> not_unpacked (iter tx ! K) \<and>
           length objs' = length (iter tx) \<and>
           (\<forall>i<K. state (objs' ! i) = Some XBPS_PKG_STATE_UNPACKED) \<and>
           (\<forall>i. K \<le> i \<and> i < length (iter tx) \<longrightarrow> objs' ! i = iter tx ! i) \<and>
           (\<forall>e'\<in>set evs. phase_of e' = 3 \<longrightarrow> (\<exists>i\<le>K. about e' (iter tx ! i))) \<and>
           e = last evs \<and> r = Inr (call_rv e) \<and> configured evs = []"
  using assms(1)
proof (cases rule: exec_transaction_elims)
  case (sizes_failed rv1)
  from show_transaction_sizes_calls[OF sizes_failed(1)] assms(2,3) show ?thesis by auto
next
  case (declined evs1)
  from show_transaction_sizes_calls[OF declined(1)] declined(4) assms(2,3) show ?thesis by auto
next
  case (hash_failed evs1 p rv3 evs3)
  have "\<forall>e\<in>set evs1. phase_of e = 0" "\<forall>e\<in>set p. phase_of e = 1"
    "\<forall>e\<in>set evs3. phase_of e = 2"
    using show_transaction_sizes_calls[OF hash_failed(1)] hash_failed(2)
      check_pkg_hashes_phase[OF hash_failed(3)] by simp_all
  with hash_failed(7) assms(2,3) show ?thesis by auto
next
  case (unpack_stopped evs1 p evs3 evs4)
  have p1: "\<forall>e\<in>set evs1. phase_of e = 0" and p2: "\<forall>e\<in>set p. phase_of e = 1"
    and p3: "\<forall>e\<in>set evs3. phase_of e = 2" and p4: "\<forall>e\<in>set evs4. phase_of e = 3"
    using show_transaction_sizes_calls[OF unpack_stopped(1)] unpack_stopped(2)
      check_pkg_hashes_phase[OF unpack_stopped(3)] unpack_loop_phase[OF unpack_stopped(4)]
    by simp_all
  have in4: "e \<in> set evs4" using p1 p2 p3 assms(2,3) unpack_stopped(5) by auto
  have only4: "\<forall>e'\<in>set evs. phase_of e' = 3 \<longrightarrow> e' \<in> set evs4"
    using p1 p2 p3 unpack_stopped(5) by auto
  have "\<forall>e\<in>set evs. phase_of e \<noteq> 4" using p1 p2 p3 p4 unpack_stopped(5) by auto
  then have c0: "configured evs = []" by (simp add: configured_other_phase)
  from unpack_loop_stop[OF unpack_stopped(4) in4 assms(4)] have "e = last evs4" by simp
  then have l: "e = last evs"
    using last_append_right[OF in4, of "evs1 @ p @ evs3"] unpack_stopped(5) by simp
  from unpack_loop_stopped[OF unpack_stopped(4)] obtain K where K:
    "K < length (iter tx)" "length objs' = length (iter tx)"
    "\<forall>i<K. state (objs' ! i) = Some XBPS_PKG_STATE_UNPACKED"
    "\<forall>i. K \<le> i \<and> i < length (iter tx) \<longrightarrow> objs' ! i = iter tx ! i"
    "\<forall>e\<in>set evs4. \<exists>i\<le>K. about e (iter tx ! i)"
    "\<forall>e\<in>set evs4. call_rv e \<noteq> 0 \<longrightarrow>
       about e (iter tx ! K) \<and> not_unpacked (iter tx ! K) \<and> r = Inr (call_rv e)"
    by auto
  have "about e (iter tx ! K) \<and> not_unpacked (iter tx ! K) \<and>
        length objs' = length (iter tx) \<and>
        (\<forall>i<K. state (objs' ! i) = Some XBPS_PKG_STATE_UNPACKED) \<and>
        (\<forall>i. K \<le> i \<and> i < length (iter tx) \<longrightarrow> objs' ! i = iter tx ! i) \<and>
        (\<forall>e'\<in>set evs. phase_of e' = 3 \<longrightarrow> (\<exists>i\<le>K. about e' (iter tx ! i))) \<and>
        e = last evs \<and> r = Inr (call_rv e) \<and> configured evs = []"
    using K(2-6) in4 assms(4) only4 l c0 by simp
  with K(1) show ?thesis by blast
next
  case (finished evs1 p evs3 evs4 rv5 evs5)
  have p1: "\<forall>e\<in>set evs1. phase_of e = 0" and p2: "\<forall>e\<in>set p. phase_of e = 1"
    and p3: "\<forall>e\<in>set evs3. phase_of e = 2" and p5: "\<forall>e\<in>set evs5. phase_of e = 4"
    using show_transaction_sizes_calls[OF finished(1)] finished(2)
      check_pkg_hashes_phase[OF finished(3)] configure_loop_phase[OF finished(5)]
    by simp_all
  have in4: "e \<in> set evs4" using p1 p2 p3 p5 assms(2,3) finished(7) by auto
  from unpack_loop_stop[OF finished(4) in4 assms(4)] show ?thesis by simp
qed

text \<open>
  The theorem at the forced installation of "foo", "a" and "b" when unpacking "a"
  fails with 5: "foo" is unpacked, "a" and "b" are as they were, the failing call is the
  last one, and 5 is returned.
\<close>

theorem unpack_fail_fast_witness:
  "exec_transaction unpack_fails_collab
       (trans_one [mkpkg ''foo'' ''1.0'', mkpkg ''a'' ''1'', mkpkg ''b'' ''2''] True) [] =
     (Inr 5,
      [(mkpkg ''foo'' ''1.0'')\<lparr>state := Some XBPS_PKG_STATE_UNPACKED\<rparr>,
       mkpkg ''a'' ''1'', mkpkg ''b'' ''2''],
      [EvPkgList ''installed'' ''  foo-1.0 a-1 b-2 '', EvHumanize 300 0, EvHumanize 900 0,
       EvCheckHash (mkpkg ''foo'' ''1.0'') ''/repo'' 0,
       EvCheckHash (mkpkg ''a'' ''1'') ''/repo'' 0,
       EvCheckHash (mkpkg ''b'' ''2'') ''/repo'' 0,
       EvUnpack (mkpkg ''foo'' ''1.0'') False 0,
       EvRegister (mkpkg ''foo'' ''1.0'') False 0,
       EvSetState (mkpkg ''foo'' ''1.0'') XBPS_PKG_STATE_UNPACKED 0,
       EvUnpack (mkpkg ''a'' ''1'') False 5]) \<and>
   phase_of (EvUnpack (mkpkg ''a'' ''1'') False 5) = 3 \<and>
   call_rv (EvUnpack (mkpkg ''a'' ''1'') False 5) \<noteq> 0 \<and>
   (\<exists>K<3. about (EvUnpack (mkpkg ''a'' ''1'') False 5)
             ([mkpkg ''foo'' ''1.0'', mkpkg ''a'' ''1'', mkpkg ''b'' ''2''] ! K) \<and>
           (\<forall>i<K. state ([(mkpkg ''foo'' ''1.0'')\<lparr>state := Some XBPS_PKG_STATE_UNPACKED\<rparr>,
                            mkpkg ''a'' ''1'', mkpkg ''b'' ''2''] ! i) =
                    Some XBPS_PKG_STATE_UNPACKED) \<and>
           (\<forall>i. K \<le> i \<and> i < 3 \<longrightarrow>
                [(mkpkg ''foo'' ''1.0'')\<lparr>state := Some XBPS_PKG_STATE_UNPACKED\<rparr>,
                 mkpkg ''a'' ''1'', mkpkg ''b'' ''2''] ! i =
                [mkpkg ''foo'' ''1.0'', mkpkg ''a'' ''1'', mkpkg ''b'' ''2''] ! i))"
proof -
  let ?tx = "trans_one [mkpkg ''foo'' ''1.0'', mkpkg ''a'' ''1'', mkpkg ''b'' ''2''] True"
  let ?objs' = "[(mkpkg ''foo'' ''1.0'')\<lparr>state := Some XBPS_PKG_STATE_UNPACKED\<rparr>,
       mkpkg ''a'' ''1'', mkpkg ''b'' ''2'']"
  let ?e = "EvUnpack (mkpkg ''a'' ''1'') False 5"
  let ?evs = "[EvPkgList ''installed'' ''  foo-1.0 a-1 b-2 '', EvHumanize 300 0,
       EvHumanize 900 0,
       EvCheckHash (mkpkg ''foo'' ''1.0'') ''/repo'' 0,
       EvCheckHash (mkpkg ''a'' ''1'') ''/repo'' 0,
       EvCheckHash (mkpkg ''b'' ''2'') ''/repo'' 0,
       EvUnpack (mkpkg ''foo'' ''1.0'') False 0,
       EvRegister (mkpkg ''foo'' ''1.0'') False 0,
       EvSetState (mkpkg ''foo'' ''1.0'') XBPS_PKG_STATE_UNPACKED 0,
       ?e]"
  have run: "exec_transaction unpack_fails_collab ?tx [] = (Inr 5, ?objs', ?evs)"
    by (simp add: run_defs unpack_fails_collab_def)
  have i: "?e \<in> set ?evs" by simp
  have p: "phase_of ?e = 3" by simp
  have f: "call_rv ?e \<noteq> 0" by simp
  have it: "iter ?tx = [mkpkg ''foo'' ''1.0'', mkpkg ''a'' ''1'', mkpkg ''b'' ''2'']"
    by (simp add: trans_one_def)
  from unpack_fail_fast[OF run i p f] obtain K where K: "K < length (iter ?tx)"
    "about ?e (iter ?tx ! K)"
    "\<forall>i<K. state (?objs' ! i) = Some XBPS_PKG_STATE_UNPACKED"
    "\<forall>i. K \<le> i \<and> i < length (iter ?tx) \<longrightarrow> ?objs' ! i = iter ?tx ! i"
    by blast
  have "\<exists>K<3. about ?e ([mkpkg ''foo'' ''1.0'', mkpkg ''a'' ''1'', mkpkg ''b'' ''2''] ! K) \<and>
           (\<forall>i<K. state (?objs' ! i) = Some XBPS_PKG_STATE_UNPACKED) \<and>
           (\<forall>i. K \<le> i \<and> i < 3 \<longrightarrow>
                ?objs' ! i = [mkpkg ''foo'' ''1.0'', mkpkg ''a'' ''1'', mkpkg ''b'' ''2''] ! i)"
    using K unfolding it by (rule_tac x = K in exI) simp
  with run p f show ?thesis by simp
qed

subsection \<open>C4: the integrity gate\<close>

text \<open>
  C4. \<open>check_pkg_hashes\<close> checks the hash of the packages that are not unpacked, in
  order, and of no other: every call it makes is \<open>xbps_check_pkg_file_hash\<close> for the
  next of these packages and its repository, and records what the collaborator
  answered. It returns 0, -1 or \<open>EINVAL\<close>: -1 exactly when a check did not return 0
  (a mismatch, \<open>ERANGE\<close>, or any other error), and that check is its last call;
  \<open>EINVAL\<close> only when a state cannot be read. So when every state can be read and no
  check fails it returns 0 and has checked all the packages that are not unpacked, and
  only them.
  In a run of \<open>exec_transaction\<close> the same holds: the packages whose hash is checked
  are the first of those not unpacked; they are all of them when the summary has
  succeeded, the user has agreed (or \<open>force\<close> is set), every state can be read and no
  check fails; if any call of the first or the second loop is made, all of them were
  checked and every check returned 0; and after a check that fails
  \<open>exec_transaction\<close> returns -1 at once, leaving the packages as they were, with no
  call of the first or second loop (nothing is removed, unpacked, registered or
  configured).
\<close>

theorem integrity_gate:
  "(check_pkg_hashes c objs h = (rv, hs) \<longrightarrow>
      prefix (hashed hs) (filter not_unpacked objs) \<and>
      (\<forall>i<length hs. hs ! i =
         EvCheckHash (filter not_unpacked objs ! i) (repository (filter not_unpacked objs ! i))
           (xbps_check_pkg_file_hash c (h @ take i hs) (filter not_unpacked objs ! i)
              (repository (filter not_unpacked objs ! i)))) \<and>
      (rv = 0 \<or> rv = -1 \<or> rv = EINVAL) \<and>
      (rv = -1 \<longleftrightarrow> (\<exists>e\<in>set hs. call_rv e \<noteq> 0)) \<and>
      (rv = EINVAL \<longrightarrow> (\<exists>obj\<in>set objs. state obj = None)) \<and>
      (rv = 0 \<longrightarrow> hashed hs = filter not_unpacked objs) \<and>
      ((\<forall>obj\<in>set objs. state obj \<noteq> None) \<and> (\<forall>e\<in>set hs. call_rv e = 0) \<longrightarrow>
         rv = 0 \<and> hashed hs = filter not_unpacked objs) \<and>
      (\<forall>e\<in>set hs. call_rv e \<noteq> 0 \<longrightarrow> rv = -1 \<and> e = last hs)) \<and>
   (exec_transaction c tx h = (r, objs', evs) \<longrightarrow>
      prefix (hashed evs) (filter not_unpacked (iter tx)) \<and>
      ((\<exists>e\<in>set evs. 3 \<le> phase_of e) \<longrightarrow>
         hashed evs = filter not_unpacked (iter tx) \<and>
         (\<forall>e\<in>set evs. phase_of e = 2 \<longrightarrow> call_rv e = 0)) \<and>
      ((\<forall>e\<in>set evs. phase_of e = 0 \<longrightarrow> call_rv e \<noteq> -1) \<and>
       (force tx \<or> EvNoYes True \<in> set evs) \<and>
       (\<forall>obj\<in>set (iter tx). state obj \<noteq> None) \<and>
       (\<forall>e\<in>set evs. phase_of e = 2 \<longrightarrow> call_rv e = 0) \<longrightarrow>
         hashed evs = filter not_unpacked (iter tx)) \<and>
      (\<forall>e\<in>set evs. phase_of e = 2 \<and> call_rv e \<noteq> 0 \<longrightarrow>
         r = Inr (-1) \<and> objs' = iter tx \<and> e = last evs \<and>
         (\<forall>e'\<in>set evs. phase_of e' \<le> 2)))"
proof (intro conjI impI)
  assume a: "check_pkg_hashes c objs h = (rv, hs)"
  show "prefix (hashed hs) (filter not_unpacked objs)"
    using check_pkg_hashes_prefix[OF a] .
  show "\<forall>i<length hs. hs ! i =
         EvCheckHash (filter not_unpacked objs ! i) (repository (filter not_unpacked objs ! i))
           (xbps_check_pkg_file_hash c (h @ take i hs) (filter not_unpacked objs ! i)
              (repository (filter not_unpacked objs ! i)))"
    using check_pkg_hashes_calls[OF a] by simp
  show "rv = 0 \<or> rv = -1 \<or> rv = EINVAL"
    using check_pkg_hashes_rv[OF a] by blast
  show "rv = -1 \<longleftrightarrow> (\<exists>e\<in>set hs. call_rv e \<noteq> 0)"
    using check_pkg_hashes_rv[OF a] by blast
  show "\<exists>obj\<in>set objs. state obj = None" if "rv = EINVAL"
    using check_pkg_hashes_rv[OF a] that by blast
  show "hashed hs = filter not_unpacked objs" if "rv = 0"
    using check_pkg_hashes_ok[of c objs h hs] a that by simp
  show "\<forall>e\<in>set hs. call_rv e \<noteq> 0 \<longrightarrow> rv = -1 \<and> e = last hs"
    using check_pkg_hashes_stop[OF a] by simp
  have z: "rv = 0"
    if "(\<forall>obj\<in>set objs. state obj \<noteq> None) \<and> (\<forall>e\<in>set hs. call_rv e = 0)"
    using check_pkg_hashes_rv[OF a] that by auto
  then show "rv = 0"
    if "(\<forall>obj\<in>set objs. state obj \<noteq> None) \<and> (\<forall>e\<in>set hs. call_rv e = 0)"
    using that by simp
  show "hashed hs = filter not_unpacked objs"
    if "(\<forall>obj\<in>set objs. state obj \<noteq> None) \<and> (\<forall>e\<in>set hs. call_rv e = 0)"
    using check_pkg_hashes_ok[of c objs h hs] a z[OF that] by simp
next
  assume b: "exec_transaction c tx h = (r, objs', evs)"
  show "prefix (hashed evs) (filter not_unpacked (iter tx))"
    using exec_transaction_hashed[OF b] by simp
  show "hashed evs = filter not_unpacked (iter tx)" if "\<exists>e\<in>set evs. 3 \<le> phase_of e"
    using exec_transaction_hashed[OF b] that by simp
  show "\<forall>e\<in>set evs. phase_of e = 2 \<longrightarrow> call_rv e = 0" if "\<exists>e\<in>set evs. 3 \<le> phase_of e"
    using exec_transaction_hashed[OF b] that by simp
  show "hashed evs = filter not_unpacked (iter tx)"
    if "(\<forall>e\<in>set evs. phase_of e = 0 \<longrightarrow> call_rv e \<noteq> -1) \<and>
       (force tx \<or> EvNoYes True \<in> set evs) \<and>
       (\<forall>obj\<in>set (iter tx). state obj \<noteq> None) \<and>
       (\<forall>e\<in>set evs. phase_of e = 2 \<longrightarrow> call_rv e = 0)"
    using exec_transaction_gate_complete[OF b] that by simp
  show "\<forall>e\<in>set evs. phase_of e = 2 \<and> call_rv e \<noteq> 0 \<longrightarrow>
         r = Inr (-1) \<and> objs' = iter tx \<and> e = last evs \<and>
         (\<forall>e'\<in>set evs. phase_of e' \<le> 2)"
    using exec_transaction_hash_failed[OF b] by simp
qed

text \<open>
  The theorem at the forced installation of "foo" and "a" when the hash of "a" does not
  match, and at the installation of "foo", "a" (unpacked already) and "b" when every
  hash matches and the user says yes.
\<close>

theorem integrity_gate_witness:
  "check_pkg_hashes mismatch_collab [mkpkg ''foo'' ''1.0'', mkpkg ''a'' ''1''] [] =
     (-1, [EvCheckHash (mkpkg ''foo'' ''1.0'') ''/repo'' 0,
           EvCheckHash (mkpkg ''a'' ''1'') ''/repo'' ERANGE]) \<and>
   exec_transaction mismatch_collab
       (trans_one [mkpkg ''foo'' ''1.0'', mkpkg ''a'' ''1''] True) [] =
     (Inr (-1), [mkpkg ''foo'' ''1.0'', mkpkg ''a'' ''1''],
      [EvPkgList ''installed'' ''  foo-1.0 a-1 '', EvHumanize 200 0, EvHumanize 600 0,
       EvCheckHash (mkpkg ''foo'' ''1.0'') ''/repo'' 0,
       EvCheckHash (mkpkg ''a'' ''1'') ''/repo'' ERANGE]) \<and>
   check_pkg_hashes ok_collab
       [mkpkg ''foo'' ''1.0'', (mkpkg ''a'' ''1'')\<lparr>state := Some XBPS_PKG_STATE_UNPACKED\<rparr>,
        mkpkg ''b'' ''2''] [] =
     (0, [EvCheckHash (mkpkg ''foo'' ''1.0'') ''/repo'' 0,
          EvCheckHash (mkpkg ''b'' ''2'') ''/repo'' 0]) \<and>
   filter not_unpacked
       [mkpkg ''foo'' ''1.0'', (mkpkg ''a'' ''1'')\<lparr>state := Some XBPS_PKG_STATE_UNPACKED\<rparr>,
        mkpkg ''b'' ''2''] = [mkpkg ''foo'' ''1.0'', mkpkg ''b'' ''2''] \<and>
   hashed (snd (snd (exec_transaction ok_collab
       (trans_one [mkpkg ''foo'' ''1.0'',
                   (mkpkg ''a'' ''1'')\<lparr>state := Some XBPS_PKG_STATE_UNPACKED\<rparr>,
                   mkpkg ''b'' ''2''] False) []))) =
     [mkpkg ''foo'' ''1.0'', mkpkg ''b'' ''2'']"
proof -
  let ?bad = "[mkpkg ''foo'' ''1.0'', mkpkg ''a'' ''1'']"
  let ?hs = "[EvCheckHash (mkpkg ''foo'' ''1.0'') ''/repo'' 0,
           EvCheckHash (mkpkg ''a'' ''1'') ''/repo'' ERANGE]"
  let ?evs = "[EvPkgList ''installed'' ''  foo-1.0 a-1 '', EvHumanize 200 0, EvHumanize 600 0,
       EvCheckHash (mkpkg ''foo'' ''1.0'') ''/repo'' 0,
       EvCheckHash (mkpkg ''a'' ''1'') ''/repo'' ERANGE]"
  let ?good = "[mkpkg ''foo'' ''1.0'',
       (mkpkg ''a'' ''1'')\<lparr>state := Some XBPS_PKG_STATE_UNPACKED\<rparr>, mkpkg ''b'' ''2'']"
  let ?good' = "[(mkpkg ''foo'' ''1.0'')\<lparr>state := Some XBPS_PKG_STATE_UNPACKED\<rparr>,
       (mkpkg ''a'' ''1'')\<lparr>state := Some XBPS_PKG_STATE_UNPACKED\<rparr>,
       (mkpkg ''b'' ''2'')\<lparr>state := Some XBPS_PKG_STATE_UNPACKED\<rparr>]"
  let ?ghs = "[EvCheckHash (mkpkg ''foo'' ''1.0'') ''/repo'' 0,
          EvCheckHash (mkpkg ''b'' ''2'') ''/repo'' 0]"
  let ?gevs = "[EvPkgList ''installed'' ''  foo-1.0 a-1 b-2 '', EvHumanize 300 0,
       EvHumanize 900 0, EvNoYes True,
       EvCheckHash (mkpkg ''foo'' ''1.0'') ''/repo'' 0,
       EvCheckHash (mkpkg ''b'' ''2'') ''/repo'' 0,
       EvUnpack (mkpkg ''foo'' ''1.0'') False 0,
       EvRegister (mkpkg ''foo'' ''1.0'') False 0,
       EvSetState (mkpkg ''foo'' ''1.0'') XBPS_PKG_STATE_UNPACKED 0,
       EvUnpack (mkpkg ''b'' ''2'') False 0,
       EvRegister (mkpkg ''b'' ''2'') True 0,
       EvSetState (mkpkg ''b'' ''2'') XBPS_PKG_STATE_UNPACKED 0,
       EvConfigure ''foo'' ''1.0'' 0, EvConfigure ''a'' ''1'' 0, EvConfigure ''b'' ''2'' 0]"
  have g: "check_pkg_hashes mismatch_collab ?bad [] = (-1, ?hs)"
    by (simp add: run_defs mismatch_collab_def)
  have run: "exec_transaction mismatch_collab (trans_one ?bad True) [] =
     (Inr (-1), ?bad, ?evs)"
    by (simp add: run_defs mismatch_collab_def)
  have g2: "check_pkg_hashes ok_collab ?good [] = (0, ?ghs)"
    by (simp add: run_defs)
  have run2: "exec_transaction ok_collab (trans_one ?good False) [] = (Inr 0, ?good', ?gevs)"
    by (simp add: run_defs)
  have st: "\<forall>obj\<in>set ?good. state obj \<noteq> None" by (simp add: mkpkg_def)
  have f: "filter not_unpacked ?good = [mkpkg ''foo'' ''1.0'', mkpkg ''b'' ''2'']"
    by (simp add: not_unpacked_def mkpkg_def)
  from integrity_gate[of mismatch_collab ?bad "[]" "-1" ?hs "trans_one ?bad True"
      "Inr (-1)" ?bad ?evs] g run
  have bad: "\<forall>e\<in>set ?hs. call_rv e \<noteq> 0 \<longrightarrow> e = last ?hs" by simp
  from integrity_gate[of ok_collab ?good "[]" 0 ?ghs "trans_one ?good False"
      "Inr 0" ?good' ?gevs] g2 run2 st
  have good: "hashed ?ghs = filter not_unpacked ?good \<and>
      hashed ?gevs = filter not_unpacked (iter (trans_one ?good False))"
    by (simp add: trans_one_def)
  from g run g2 run2 f bad good show ?thesis by (simp add: trans_one_def)
qed

subsection \<open>C5: packages that replace an installed one\<close>

text \<open>
  What one iteration does for a package that is not unpacked and that replaces an
  installed one (the transaction is of type \<open>TRANS_ALL\<close>, or it is an update and
  \<open>curpkgname\<close> is the name of the package, and
  \<open>xbps_find_pkg_installed_from_plist\<close> finds the package installed). The variable
  \<open>essential\<close> takes the value of the key when the dictionary has the key and keeps
  the value of the iteration before otherwise. If it is false, the first call is
  \<open>xbps_remove_pkg\<close> with the name and version of the package and \<open>true\<close> (keep
  the configuration files); if the removal fails it is the only call and its value is
  returned, and if it succeeds the next call unpacks the package. If it is true, no
  removal is called: the first call unpacks the package, with the flag \<open>essential\<close>
  set.
\<close>

lemma unpack_one_replaces:
  assumes "unpack_one c tx obj ess isdep h = (res, obj', ess', isdep', evs)"
    and "not_unpacked obj" and "state obj \<noteq> None"
    and "trans_type tx = TRANS_ALL \<or>
         (originpkgname tx \<noteq> None \<and> update tx \<and> curpkgname tx = Some (pkgname obj))"
    and "xbps_find_pkg_installed_from_plist c h (pkgname obj) = Some inst"
  shows "ess' = (case essential obj of Some b \<Rightarrow> b | None \<Rightarrow> ess) \<and>
     (if ess'
      then (\<exists>rv rest. evs = EvUnpack obj True rv # rest) \<and> removed evs = []
      else (\<exists>rv rest. evs = EvRemove (pkgname obj) (version obj) True rv # rest \<and>
              removed evs = [(pkgname obj, version obj, True)] \<and>
              (rv \<noteq> 0 \<longrightarrow> rest = [] \<and> res = Some (Inr rv)) \<and>
              (rv = 0 \<longrightarrow> (\<exists>rv' rest'. rest = EvUnpack obj False rv' # rest'))))"
proof -
  have e: "ess' = (case essential obj of Some b \<Rightarrow> b | None \<Rightarrow> ess)"
    using assms(1) by (auto simp: unpack_one_def Let_def split: sum.splits option.splits
        if_splits prod.splits)
  have m: "mark_isdep tx obj isdep \<noteq> Inl NullPointer"
    using assms(4) by (auto simp: mark_isdep_def split: option.splits)
  have u: "is_update_of tx obj = Inr True"
    using assms(4) by (auto simp: is_update_of_def)
  from assms(1) have
    "if ess'
      then (\<exists>rv rest. evs = EvUnpack obj True rv # rest) \<and> removed evs = []
      else (\<exists>rv rest. evs = EvRemove (pkgname obj) (version obj) True rv # rest \<and>
              removed evs = [(pkgname obj, version obj, True)] \<and>
              (rv \<noteq> 0 \<longrightarrow> rest = [] \<and> res = Some (Inr rv)) \<and>
              (rv = 0 \<longrightarrow> (\<exists>rv' rest'. rest = EvUnpack obj False rv' # rest')))"
  proof (cases rule: unpack_one_elims)
    case origin_null
    with m show ?thesis by simp
  next
    case (no_state d)
    with assms(3) show ?thesis by simp
  next
    case skipped
    with assms(2) show ?thesis by simp
  next
    case (cur_null d)
    from assms(1) cur_null(1,3) assms(2,3) u have False
      by (auto simp: unpack_one_def Let_def xbps_get_pkg_state_dictionary_def not_unpacked_def
          split: option.splits if_splits prod.splits)
    then show ?thesis ..
  next
    case (remove_stopped d rv)
    from remove_stopped(4) assms(5) remove_stopped(5) show ?thesis
      by (auto simp: remove_installed_def Let_def split: if_splits)
  next
    case (went_on d upd evs1 r2 evs2)
    from went_on(3) u have upd: "upd" by simp
    with went_on(4) have r: "remove_installed c obj ess' h = (None, evs1)" by simp
    show ?thesis
    proof (cases ess')
      case True
      with r assms(5) have "evs1 = []" by (simp add: remove_installed_def)
      with went_on(5,7) True show ?thesis
        by (cases rule: unpack_register_elims) auto
    next
      case False
      with r assms(5) have "evs1 = [EvRemove (pkgname obj) (version obj) True 0]"
        by (auto simp: remove_installed_def Let_def split: if_splits)
      with went_on(5,7) False show ?thesis
        by (cases rule: unpack_register_elims) auto
    qed
  qed
  with e show ?thesis by simp
qed

text \<open>
  \<open>curpkgname\<close> is read at line 340 and assigned nowhere in the file. So when
  \<open>xbps_install_pkg\<close> updates a package, the first loop calls \<open>strcmp\<close> on \<open>NULL\<close> at
  the first package that is not unpacked: the forced update of "foo" stops there, after
  the hash check and before any removal.
\<close>

lemma update_faults:
  "xbps_install_pkg update_collab ''foo'' True True =
     (Inl NullPointer,
      [EvPkgList ''installed'' ''  foo-1.0 '', EvHumanize 100 0, EvHumanize 300 0,
       EvCheckHash (mkpkg ''foo'' ''1.0'') ''/repo'' 0])"
  by (simp add: xbps_install_pkg_def install_pkg_prepare_def cleanup_def run_defs
      update_collab_def installed_collab_def foo_props_def)

text \<open>
  C5 does not hold of the code. The variable \<open>essential\<close> is set to false once,
  before the first loop (line 290), and is not reset between the iterations (as
  \<open>state\<close> is at line 331): a package without the key "essential" is handled as the
  package before it was. In the forced update of all packages, with "foo" (essential)
  and then "a" (no key "essential") both installed, "a" is unpacked with the flag
  \<open>essential\<close> set and no \<open>xbps_remove_pkg\<close> is called for it, although it is not
  essential and an installed record exists: the run removes nothing and returns 0. With
  the same two packages in the other order, "a" is removed before it is unpacked.
\<close>

theorem essential_not_reset:
  "exec_transaction installed_collab
       (trans_all [(mkpkg ''foo'' ''1.0'')\<lparr>essential := Some True\<rparr>, mkpkg ''a'' ''1''] True) [] =
     (Inr 0,
      [(mkpkg ''foo'' ''1.0'')\<lparr>essential := Some True, state := Some XBPS_PKG_STATE_UNPACKED\<rparr>,
       (mkpkg ''a'' ''1'')\<lparr>state := Some XBPS_PKG_STATE_UNPACKED\<rparr>],
      [EvPkgList ''updated'' ''  foo-1.0 a-1 '', EvHumanize 200 0, EvHumanize 600 0,
       EvCheckHash ((mkpkg ''foo'' ''1.0'')\<lparr>essential := Some True\<rparr>) ''/repo'' 0,
       EvCheckHash (mkpkg ''a'' ''1'') ''/repo'' 0,
       EvUnpack ((mkpkg ''foo'' ''1.0'')\<lparr>essential := Some True\<rparr>) True 0,
       EvRegister ((mkpkg ''foo'' ''1.0'')\<lparr>essential := Some True\<rparr>) False 0,
       EvSetState ((mkpkg ''foo'' ''1.0'')\<lparr>essential := Some True\<rparr>)
         XBPS_PKG_STATE_UNPACKED 0,
       EvUnpack (mkpkg ''a'' ''1'') True 0,
       EvRegister (mkpkg ''a'' ''1'') False 0,
       EvSetState (mkpkg ''a'' ''1'') XBPS_PKG_STATE_UNPACKED 0,
       EvConfigure ''foo'' ''1.0'' 0, EvConfigure ''a'' ''1'' 0]) \<and>
   removed (snd (snd (exec_transaction installed_collab
       (trans_all [(mkpkg ''foo'' ''1.0'')\<lparr>essential := Some True\<rparr>, mkpkg ''a'' ''1''] True)
       []))) = [] \<and>
   essential (mkpkg ''a'' ''1'') = None \<and>
   xbps_find_pkg_installed_from_plist installed_collab [] ''a'' = Some (mkpkg ''a'' ''0.9'') \<and>
   removed (snd (snd (exec_transaction installed_collab
       (trans_all [mkpkg ''a'' ''1'', (mkpkg ''foo'' ''1.0'')\<lparr>essential := Some True\<rparr>] True)
       []))) = [(''a'', ''1'', True)]"
  by (simp add: run_defs installed_collab_def)

subsection \<open>C6: an update of a package that is not installed\<close>

text \<open>
  C6, as amended. When \<open>xbps_install_pkg\<close> is called with \<open>update\<close> set for a package
  that is not installed, it calls \<open>cleanup\<close> at once with \<open>rv\<close> still 0: no
  collaborator that changes anything has been called, and the process exits with
  \<open>EXIT_SUCCESS\<close>, which is 0.
\<close>

theorem update_not_installed_exit:
  assumes "xbps_find_pkg_installed_from_plist c [] pkg = None"
  shows "xbps_install_pkg c pkg force' True = (Inr EXIT_SUCCESS, []) \<and> EXIT_SUCCESS = 0"
  using assms
  by (simp add: xbps_install_pkg_def install_pkg_prepare_def cleanup_def EXIT_SUCCESS_def)

text \<open>The theorem for the package "foo", which \<open>ok_collab\<close> does not find installed.\<close>

theorem update_not_installed_exit_witness:
  "xbps_find_pkg_installed_from_plist ok_collab [] ''foo'' = None \<and>
   xbps_install_pkg ok_collab ''foo'' False True = (Inr EXIT_SUCCESS, []) \<and> EXIT_SUCCESS = 0"
proof -
  have h: "xbps_find_pkg_installed_from_plist ok_collab [] ''foo'' = None"
    by (simp add: ok_collab_def)
  from update_not_installed_exit[OF h, of False] h show ?thesis by simp
qed

text \<open>
  C6 as stated fails: the update of "foo", which is not installed, ends with exit
  status 0 and not with a status other than 0.
\<close>

theorem update_not_installed_counterexample:
  "xbps_find_pkg_installed_from_plist ok_collab [] ''foo'' = None \<and>
   fst (xbps_install_pkg ok_collab ''foo'' False True) = Inr 0"
  by (simp add: xbps_install_pkg_def install_pkg_prepare_def cleanup_def EXIT_SUCCESS_def
      ok_collab_def)

subsection \<open>C7: the configure phase\<close>

text \<open>
  C7. When the first loop has run to its end (every step of every package that is not
  unpacked succeeded), \<open>exec_transaction\<close> runs the second loop over the same array:
  every call it makes is \<open>xbps_configure_pkg\<close> with the name and version of the next
  package of the array, the packages that the first loop skipped included, and records
  what the collaborator answered; there is a call unless the array is empty. The loop
  returns a value other than 0 exactly when a call did: that call is the last call, and
  its value is returned, so the packages after it are not configured. When no call
  fails the loop returns 0 and has configured every package of the array, in order.
  In a run of \<open>exec_transaction\<close> the names configured are the first names of the
  array; a configure call is made only after the first loop has registered every
  package that was not unpacked, with no failing call, and left every package unpacked;
  the first configure call that fails is the last call of the run, which returns its
  value. And the pass is made: when the summary has succeeded, the user has agreed (or
  \<open>force\<close> is set) and the first loop has left every package unpacked (the origin of
  a \<open>TRANS_ONE\<close> transaction being set), configure calls are made unless the array
  is empty, and when none of them fails all the packages are configured and the run
  returns 0.
\<close>

theorem configure_phase:
  "(unpack_loop c tx objs ess isdep h1 = (None, objs1, us) \<and>
    configure_loop c objs1 h2 = (rv, cs) \<longrightarrow>
      prefix (configured cs) (names objs) \<and>
      (\<forall>i<length cs. cs ! i =
         EvConfigure (fst (names objs ! i)) (snd (names objs ! i))
           (xbps_configure_pkg c (h2 @ take i cs)
              (fst (names objs ! i)) (snd (names objs ! i)))) \<and>
      (objs \<noteq> [] \<longrightarrow> cs \<noteq> []) \<and>
      (rv \<noteq> 0 \<longleftrightarrow> (\<exists>e\<in>set cs. call_rv e \<noteq> 0)) \<and>
      (rv = 0 \<longrightarrow> configured cs = names objs) \<and>
      ((\<forall>e\<in>set cs. call_rv e = 0) \<longrightarrow> rv = 0 \<and> configured cs = names objs) \<and>
      (\<forall>e\<in>set cs. call_rv e \<noteq> 0 \<longrightarrow> rv = call_rv e \<and> e = last cs)) \<and>
   (exec_transaction c tx h = (r, objs', evs) \<longrightarrow>
      prefix (configured evs) (names (iter tx)) \<and>
      (r = Inr 0 \<and> EvNoYes False \<notin> set evs \<longrightarrow>
         configured evs = names (iter tx) \<and>
         (\<forall>obj\<in>set objs'. state obj = Some XBPS_PKG_STATE_UNPACKED)) \<and>
      (\<forall>e\<in>set evs. phase_of e = 4 \<and> call_rv e \<noteq> 0 \<longrightarrow>
         r = Inr (call_rv e) \<and> e = last evs) \<and>
      ((\<exists>e\<in>set evs. phase_of e = 4) \<longrightarrow>
         map fst (registered evs) = filter not_unpacked (iter tx) \<and>
         (\<forall>obj\<in>set objs'. state obj = Some XBPS_PKG_STATE_UNPACKED) \<and>
         (\<forall>e\<in>set evs. phase_of e = 3 \<longrightarrow> call_rv e = 0)) \<and>
      ((\<forall>e\<in>set evs. phase_of e = 0 \<longrightarrow> call_rv e \<noteq> -1) \<and>
       (force tx \<or> EvNoYes True \<in> set evs) \<and>
       (trans_type tx = TRANS_ONE \<longrightarrow> originpkgname tx \<noteq> None) \<and>
       (\<forall>obj\<in>set objs'. state obj = Some XBPS_PKG_STATE_UNPACKED) \<longrightarrow>
         (iter tx \<noteq> [] \<longrightarrow> configured evs \<noteq> []) \<and>
         (\<exists>rv. r = Inr rv) \<and>
         ((\<forall>e\<in>set evs. phase_of e = 4 \<longrightarrow> call_rv e = 0) \<longrightarrow>
            r = Inr 0 \<and> configured evs = names (iter tx))))"
proof (intro conjI impI)
  assume a: "unpack_loop c tx objs ess isdep h1 = (None, objs1, us) \<and>
    configure_loop c objs1 h2 = (rv, cs)"
  then have u: "unpack_loop c tx objs ess isdep h1 = (None, objs1, us)"
    and k: "configure_loop c objs1 h2 = (rv, cs)" by simp_all
  have nm: "names objs1 = names objs" using unpack_loop_names[OF u] by (simp add: names_def)
  show "prefix (configured cs) (names objs)"
    using configure_loop_prefix[OF k] nm by (simp add: names_def)
  show "\<forall>i<length cs. cs ! i =
         EvConfigure (fst (names objs ! i)) (snd (names objs ! i))
           (xbps_configure_pkg c (h2 @ take i cs)
              (fst (names objs ! i)) (snd (names objs ! i)))"
  proof (intro allI impI)
    fix i assume i: "i < length cs"
    with configure_loop_length[OF k] have "i < length objs1" by simp
    from names_nth[OF nm this] configure_loop_calls[OF k i] show "cs ! i =
         EvConfigure (fst (names objs ! i)) (snd (names objs ! i))
           (xbps_configure_pkg c (h2 @ take i cs)
              (fst (names objs ! i)) (snd (names objs ! i)))" by simp
  qed
  show "cs \<noteq> []" if "objs \<noteq> []"
  proof -
    from that nm have "objs1 \<noteq> []" by (auto simp: names_def)
    from configure_loop_nonempty[OF k this] show ?thesis .
  qed
  show "rv \<noteq> 0 \<longleftrightarrow> (\<exists>e\<in>set cs. call_rv e \<noteq> 0)"
    using configure_loop_rv[OF k] .
  show "configured cs = names objs" if "rv = 0"
    using configure_loop_ok[of c objs1 h2 cs] k that nm by (simp add: names_def)
  show "\<forall>e\<in>set cs. call_rv e \<noteq> 0 \<longrightarrow> rv = call_rv e \<and> e = last cs"
    using configure_loop_stop[OF k] by simp
  have z: "rv = 0" if "\<forall>e\<in>set cs. call_rv e = 0"
    using configure_loop_rv[OF k] that by blast
  then show "rv = 0" if "\<forall>e\<in>set cs. call_rv e = 0" using that .
  show "configured cs = names objs" if "\<forall>e\<in>set cs. call_rv e = 0"
    using configure_loop_ok[of c objs1 h2 cs] k z[OF that] nm by (simp add: names_def)
next
  assume b: "exec_transaction c tx h = (r, objs', evs)"
  show "prefix (configured evs) (names (iter tx))"
    using exec_transaction_configured[OF b] by simp
  show "configured evs = names (iter tx)" if "r = Inr 0 \<and> EvNoYes False \<notin> set evs"
    using exec_transaction_configured[OF b] that by simp
  show "\<forall>obj\<in>set objs'. state obj = Some XBPS_PKG_STATE_UNPACKED"
    if "r = Inr 0 \<and> EvNoYes False \<notin> set evs"
    using exec_transaction_configured[OF b] that by simp
  show "\<forall>e\<in>set evs. phase_of e = 4 \<and> call_rv e \<noteq> 0 \<longrightarrow> r = Inr (call_rv e) \<and> e = last evs"
    using exec_transaction_configured[OF b] by simp
  show "map fst (registered evs) = filter not_unpacked (iter tx)"
    if "\<exists>e\<in>set evs. phase_of e = 4"
    using exec_transaction_applied[OF b] that by blast
  show "\<forall>obj\<in>set objs'. state obj = Some XBPS_PKG_STATE_UNPACKED"
    if "\<exists>e\<in>set evs. phase_of e = 4"
    using exec_transaction_applied[OF b] that by blast
  show "\<forall>e\<in>set evs. phase_of e = 3 \<longrightarrow> call_rv e = 0"
    if "\<exists>e\<in>set evs. phase_of e = 4"
    using exec_transaction_applied[OF b] that by blast
next
  assume b: "exec_transaction c tx h = (r, objs', evs)"
    and hyp: "(\<forall>e\<in>set evs. phase_of e = 0 \<longrightarrow> call_rv e \<noteq> -1) \<and>
       (force tx \<or> EvNoYes True \<in> set evs) \<and>
       (trans_type tx = TRANS_ONE \<longrightarrow> originpkgname tx \<noteq> None) \<and>
       (\<forall>obj\<in>set objs'. state obj = Some XBPS_PKG_STATE_UNPACKED)"
  from hyp have h1: "\<forall>e\<in>set evs. phase_of e = 0 \<longrightarrow> call_rv e \<noteq> -1"
    and h2: "force tx \<or> EvNoYes True \<in> set evs"
    and h3: "trans_type tx = TRANS_ONE \<longrightarrow> originpkgname tx \<noteq> None"
    and h4: "\<forall>obj\<in>set objs'. state obj = Some XBPS_PKG_STATE_UNPACKED" by simp_all
  note t = exec_transaction_complete[OF b h1 h2 h3 h4]
  show "configured evs \<noteq> []" if "iter tx \<noteq> []" using t that by simp
  show "\<exists>rv. r = Inr rv" using t by simp
  show "r = Inr 0" if "\<forall>e\<in>set evs. phase_of e = 4 \<longrightarrow> call_rv e = 0" using t that by simp
  show "configured evs = names (iter tx)"
    if "\<forall>e\<in>set evs. phase_of e = 4 \<longrightarrow> call_rv e = 0" using t that by simp
qed

text \<open>
  The theorem at the installation of "b", which is unpacked already, "a" and "foo": when
  configuring "a" fails (forced), the first loop skips "b", the second loop configures
  "b" and then "a", and "foo" is not configured; when no call fails (the user says yes),
  the second loop configures "b", "a" and "foo".
\<close>

theorem configure_phase_witness:
  "exec_transaction configure_fails_collab
       (trans_one [(mkpkg ''b'' ''2'')\<lparr>state := Some XBPS_PKG_STATE_UNPACKED\<rparr>,
                   mkpkg ''a'' ''1'', mkpkg ''foo'' ''1.0''] True) [] =
     (Inr 5,
      [(mkpkg ''b'' ''2'')\<lparr>state := Some XBPS_PKG_STATE_UNPACKED\<rparr>,
       (mkpkg ''a'' ''1'')\<lparr>state := Some XBPS_PKG_STATE_UNPACKED\<rparr>,
       (mkpkg ''foo'' ''1.0'')\<lparr>state := Some XBPS_PKG_STATE_UNPACKED\<rparr>],
      [EvPkgList ''installed'' ''  b-2 a-1 foo-1.0 '', EvHumanize 300 0, EvHumanize 900 0,
       EvCheckHash (mkpkg ''a'' ''1'') ''/repo'' 0,
       EvCheckHash (mkpkg ''foo'' ''1.0'') ''/repo'' 0,
       EvUnpack (mkpkg ''a'' ''1'') False 0,
       EvRegister (mkpkg ''a'' ''1'') True 0,
       EvSetState (mkpkg ''a'' ''1'') XBPS_PKG_STATE_UNPACKED 0,
       EvUnpack (mkpkg ''foo'' ''1.0'') False 0,
       EvRegister (mkpkg ''foo'' ''1.0'') False 0,
       EvSetState (mkpkg ''foo'' ''1.0'') XBPS_PKG_STATE_UNPACKED 0,
       EvConfigure ''b'' ''2'' 0, EvConfigure ''a'' ''1'' 5]) \<and>
   configured [EvConfigure ''b'' ''2'' 0, EvConfigure ''a'' ''1'' 5] =
     [(''b'', ''2''), (''a'', ''1'')] \<and>
   prefix [(''b'', ''2''), (''a'', ''1'')]
     (names [(mkpkg ''b'' ''2'')\<lparr>state := Some XBPS_PKG_STATE_UNPACKED\<rparr>,
             mkpkg ''a'' ''1'', mkpkg ''foo'' ''1.0'']) \<and>
   exec_transaction ok_collab
       (trans_one [(mkpkg ''b'' ''2'')\<lparr>state := Some XBPS_PKG_STATE_UNPACKED\<rparr>,
                   mkpkg ''a'' ''1'', mkpkg ''foo'' ''1.0''] False) [] =
     (Inr 0,
      [(mkpkg ''b'' ''2'')\<lparr>state := Some XBPS_PKG_STATE_UNPACKED\<rparr>,
       (mkpkg ''a'' ''1'')\<lparr>state := Some XBPS_PKG_STATE_UNPACKED\<rparr>,
       (mkpkg ''foo'' ''1.0'')\<lparr>state := Some XBPS_PKG_STATE_UNPACKED\<rparr>],
      [EvPkgList ''installed'' ''  b-2 a-1 foo-1.0 '', EvHumanize 300 0, EvHumanize 900 0,
       EvNoYes True,
       EvCheckHash (mkpkg ''a'' ''1'') ''/repo'' 0,
       EvCheckHash (mkpkg ''foo'' ''1.0'') ''/repo'' 0,
       EvUnpack (mkpkg ''a'' ''1'') False 0,
       EvRegister (mkpkg ''a'' ''1'') True 0,
       EvSetState (mkpkg ''a'' ''1'') XBPS_PKG_STATE_UNPACKED 0,
       EvUnpack (mkpkg ''foo'' ''1.0'') False 0,
       EvRegister (mkpkg ''foo'' ''1.0'') False 0,
       EvSetState (mkpkg ''foo'' ''1.0'') XBPS_PKG_STATE_UNPACKED 0,
       EvConfigure ''b'' ''2'' 0, EvConfigure ''a'' ''1'' 0, EvConfigure ''foo'' ''1.0'' 0]) \<and>
   configured [EvConfigure ''b'' ''2'' 0, EvConfigure ''a'' ''1'' 0,
       EvConfigure ''foo'' ''1.0'' 0] =
     names [(mkpkg ''b'' ''2'')\<lparr>state := Some XBPS_PKG_STATE_UNPACKED\<rparr>,
            mkpkg ''a'' ''1'', mkpkg ''foo'' ''1.0'']"
proof -
  let ?objs = "[(mkpkg ''b'' ''2'')\<lparr>state := Some XBPS_PKG_STATE_UNPACKED\<rparr>,
                mkpkg ''a'' ''1'', mkpkg ''foo'' ''1.0'']"
  let ?objs1 = "[(mkpkg ''b'' ''2'')\<lparr>state := Some XBPS_PKG_STATE_UNPACKED\<rparr>,
       (mkpkg ''a'' ''1'')\<lparr>state := Some XBPS_PKG_STATE_UNPACKED\<rparr>,
       (mkpkg ''foo'' ''1.0'')\<lparr>state := Some XBPS_PKG_STATE_UNPACKED\<rparr>]"
  let ?us = "[EvUnpack (mkpkg ''a'' ''1'') False 0,
       EvRegister (mkpkg ''a'' ''1'') True 0,
       EvSetState (mkpkg ''a'' ''1'') XBPS_PKG_STATE_UNPACKED 0,
       EvUnpack (mkpkg ''foo'' ''1.0'') False 0,
       EvRegister (mkpkg ''foo'' ''1.0'') False 0,
       EvSetState (mkpkg ''foo'' ''1.0'') XBPS_PKG_STATE_UNPACKED 0]"
  let ?cs = "[EvConfigure ''b'' ''2'' 0, EvConfigure ''a'' ''1'' 5]"
  let ?gcs = "[EvConfigure ''b'' ''2'' 0, EvConfigure ''a'' ''1'' 0,
       EvConfigure ''foo'' ''1.0'' 0]"
  let ?pre = "[EvPkgList ''installed'' ''  b-2 a-1 foo-1.0 '', EvHumanize 300 0,
       EvHumanize 900 0]"
  let ?mid = "[EvCheckHash (mkpkg ''a'' ''1'') ''/repo'' 0,
       EvCheckHash (mkpkg ''foo'' ''1.0'') ''/repo'' 0,
       EvUnpack (mkpkg ''a'' ''1'') False 0,
       EvRegister (mkpkg ''a'' ''1'') True 0,
       EvSetState (mkpkg ''a'' ''1'') XBPS_PKG_STATE_UNPACKED 0,
       EvUnpack (mkpkg ''foo'' ''1.0'') False 0,
       EvRegister (mkpkg ''foo'' ''1.0'') False 0,
       EvSetState (mkpkg ''foo'' ''1.0'') XBPS_PKG_STATE_UNPACKED 0]"
  let ?evs = "?pre @ ?mid @ ?cs"
  let ?gevs = "?pre @ [EvNoYes True] @ ?mid @ ?gcs"
  have u: "unpack_loop configure_fails_collab (trans_one ?objs True) ?objs False False [] =
      (None, ?objs1, ?us)"
    by (simp add: run_defs configure_fails_collab_def)
  have k: "configure_loop configure_fails_collab ?objs1 [] = (5, ?cs)"
    by (simp add: run_defs configure_fails_collab_def)
  have run: "exec_transaction configure_fails_collab (trans_one ?objs True) [] =
      (Inr 5, ?objs1, ?evs)"
    by (simp add: run_defs configure_fails_collab_def)
  have u2: "unpack_loop ok_collab (trans_one ?objs False) ?objs False False [] =
      (None, ?objs1, ?us)"
    by (simp add: run_defs)
  have k2: "configure_loop ok_collab ?objs1 [] = (0, ?gcs)"
    by (simp add: run_defs)
  have run2: "exec_transaction ok_collab (trans_one ?objs False) [] = (Inr 0, ?objs1, ?gevs)"
    by (simp add: run_defs)
  from configure_phase[of configure_fails_collab "trans_one ?objs True" ?objs False False
      "[]" ?objs1 ?us "[]" 5 ?cs "[]" "Inr 5" ?objs1 ?evs] u k run
  have bad: "prefix (configured ?cs) (names ?objs) \<and>
        prefix (configured ?evs) (names (iter (trans_one ?objs True)))"
    by simp
  from configure_phase[of ok_collab "trans_one ?objs False" ?objs False False
      "[]" ?objs1 ?us "[]" 0 ?gcs "[]" "Inr 0" ?objs1 ?gevs] u2 k2 run2
  have good: "configured ?gcs = names ?objs \<and>
        configured ?gevs = names (iter (trans_one ?objs False))"
    by (simp add: trans_one_def)
  from bad good run run2 show ?thesis by (simp add: trans_one_def)
qed

subsection \<open>C8: the totals of the summary\<close>

text \<open>
  C8, as amended. The first loop of \<open>show_transaction_sizes\<close> leaves in \<open>dlsize\<close> the sum of the
  "filename-size" of all packages and in \<open>instsize\<close> the sum of their "installed_size",
  and these two sums are what the function passes to \<open>xbps_humanize_number\<close>, the
  download size first (both when the function returns 0; the first only, or both, when
  a call fails). The sums are those of \<open>uint64_t\<close>, the type of the sizes and of the
  totals: as numbers they are the sums of the sizes modulo \<open>2 ^ 64\<close>, that is the
  sums themselves whenever these are below \<open>2 ^ 64\<close>. The names and versions, which
  decide how the listing is wrapped, do not occur in the totals.
\<close>

theorem show_transaction_sizes_totals:
  assumes "show_transaction_sizes c objs descr h = (rv, evs)"
  shows "transaction_sizes objs 0 0 =
           (sum_list (map filename_size objs), sum_list (map installed_size objs)) \<and>
         prefix (humanized evs)
           [sum_list (map filename_size objs), sum_list (map installed_size objs)] \<and>
         humanized evs \<noteq> [] \<and>
         (rv = 0 \<longrightarrow> humanized evs =
           [sum_list (map filename_size objs), sum_list (map installed_size objs)]) \<and>
         unat (sum_list (map filename_size objs)) =
           sum_list (map (\<lambda>obj. unat (filename_size obj)) objs) mod 2 ^ 64 \<and>
         unat (sum_list (map installed_size objs)) =
           sum_list (map (\<lambda>obj. unat (installed_size obj)) objs) mod 2 ^ 64 \<and>
         (sum_list (map (\<lambda>obj. unat (filename_size obj)) objs) < 2 ^ 64 \<longrightarrow>
            unat (sum_list (map filename_size objs)) =
              sum_list (map (\<lambda>obj. unat (filename_size obj)) objs)) \<and>
         (sum_list (map (\<lambda>obj. unat (installed_size obj)) objs) < 2 ^ 64 \<longrightarrow>
            unat (sum_list (map installed_size objs)) =
              sum_list (map (\<lambda>obj. unat (installed_size obj)) objs))"
proof -
  have s: "transaction_sizes objs 0 0 =
           (sum_list (map filename_size objs), sum_list (map installed_size objs))"
    by (simp add: transaction_sizes_sum)
  have u1: "unat (sum_list (map filename_size objs)) =
           sum_list (map (\<lambda>obj. unat (filename_size obj)) objs) mod 2 ^ 64"
    using unat_sum_list_64[of "map filename_size objs"] by (simp add: comp_def)
  have u2: "unat (sum_list (map installed_size objs)) =
           sum_list (map (\<lambda>obj. unat (installed_size obj)) objs) mod 2 ^ 64"
    using unat_sum_list_64[of "map installed_size objs"] by (simp add: comp_def)
  from assms s have
    "prefix (humanized evs)
           [sum_list (map filename_size objs), sum_list (map installed_size objs)] \<and>
     humanized evs \<noteq> [] \<and>
     (rv = 0 \<longrightarrow> humanized evs =
           [sum_list (map filename_size objs), sum_list (map installed_size objs)])"
    by (auto simp: show_transaction_sizes_def Let_def split: if_splits)
  with s u1 u2 show ?thesis by simp
qed

text \<open>The theorem at two packages of 100 and 300 bytes each.\<close>

theorem show_transaction_sizes_totals_witness:
  "show_transaction_sizes ok_collab [mkpkg ''foo'' ''1.0'', mkpkg ''a'' ''1''] ''installed'' [] =
     (0, [EvPkgList ''installed'' ''  foo-1.0 a-1 '', EvHumanize 200 0, EvHumanize 600 0]) \<and>
   humanized [EvPkgList ''installed'' ''  foo-1.0 a-1 '', EvHumanize 200 0, EvHumanize 600 0] =
     [sum_list (map filename_size [mkpkg ''foo'' ''1.0'', mkpkg ''a'' ''1'']),
      sum_list (map installed_size [mkpkg ''foo'' ''1.0'', mkpkg ''a'' ''1''])] \<and>
   sum_list (map filename_size [mkpkg ''foo'' ''1.0'', mkpkg ''a'' ''1'']) = 200 \<and>
   sum_list (map installed_size [mkpkg ''foo'' ''1.0'', mkpkg ''a'' ''1'']) = 600 \<and>
   sum_list (map (\<lambda>obj. unat (filename_size obj))
     [mkpkg ''foo'' ''1.0'', mkpkg ''a'' ''1'']) = 200 \<and>
   sum_list (map (\<lambda>obj. unat (installed_size obj))
     [mkpkg ''foo'' ''1.0'', mkpkg ''a'' ''1'']) = 600"
proof -
  have run: "show_transaction_sizes ok_collab [mkpkg ''foo'' ''1.0'', mkpkg ''a'' ''1'']
      ''installed'' [] =
     (0, [EvPkgList ''installed'' ''  foo-1.0 a-1 '', EvHumanize 200 0, EvHumanize 600 0])"
    by (simp add: run_defs)
  from show_transaction_sizes_totals[OF run] run show ?thesis
    by (simp add: mkpkg_def)
qed

text \<open>
  C8 as stated fails: the totals are not the sums of the sizes when these reach
  \<open>2 ^ 64\<close>. For two packages of \<open>2 ^ 63\<close> bytes each, packed and installed, both
  sums are \<open>2 ^ 64\<close> and both totals passed to \<open>xbps_humanize_number\<close> are 0.
\<close>

theorem show_transaction_sizes_wrap_counterexample:
  "humanized (snd (show_transaction_sizes ok_collab [huge_pkg ''a'', huge_pkg ''b'']
       ''installed'' [])) = [0, 0] \<and>
   unat (filename_size (huge_pkg ''a'')) + unat (filename_size (huge_pkg ''b'')) =
     18446744073709551616 \<and>
   unat (installed_size (huge_pkg ''a'')) + unat (installed_size (huge_pkg ''b'')) =
     18446744073709551616"
  by (simp add: run_defs huge_pkg_def)

subsection \<open>C9: a dependency that is skipped leaves the flag set\<close>

text \<open>
  C9. In a transaction of type \<open>TRANS_ONE\<close> whose origin is set, let the first loop
  come to a package whose name is not the origin's and which is unpacked already, so
  that it is skipped. Then the next registration of the loop, if there is one, is that
  of the first package after it that is not unpacked, and it registers that package as
  a dependency, whatever its name, the origin's included: the skipped package set
  \<open>isdep\<close>, and only a registration clears it.
\<close>

theorem skipped_dependency_marks_next:
  assumes "trans_type tx = TRANS_ONE" and "originpkgname tx = Some orig"
    and "pkgname dep \<noteq> orig" and "\<not> not_unpacked dep"
    and "unpack_loop c tx (dep # objs) ess isdep h = (res, objs', evs)"
    and "registered evs = (obj, d) # others"
  shows "d \<and> find not_unpacked objs = Some obj"
  using assms(5)
proof (cases rule: unpack_loop_Cons_elims)
  case (stop r o1 e1 i1)
  from assms(6) have "(obj, d) \<in> set (registered evs)" by simp
  from unpack_one_registered[OF stop(1) this] assms(4) show ?thesis by simp
next
  case (go o1 e1 i1 evs1 os2 evs2)
  from unpack_one_isdep[OF go(1)] assms(4) mark_isdep_one[OF assms(1,2), of dep isdep] assms(3)
  have "i1 = True" "evs1 = []" by auto
  with go(2,4) have "unpack_loop c tx objs e1 True h = (res, os2, evs)" by simp
  from unpack_loop_first_registered[OF assms(1,2) this assms(6)] show ?thesis .
qed

text \<open>
  The theorem at the array of "a", which is unpacked already, and the origin "foo":
  "foo" is registered as a dependency.
\<close>

theorem skipped_dependency_marks_next_witness:
  "trans_type (trans_one [] True) = TRANS_ONE \<and>
   originpkgname (trans_one [] True) = Some ''foo'' \<and>
   pkgname ((mkpkg ''a'' ''1'')\<lparr>state := Some XBPS_PKG_STATE_UNPACKED\<rparr>) \<noteq> ''foo'' \<and>
   \<not> not_unpacked ((mkpkg ''a'' ''1'')\<lparr>state := Some XBPS_PKG_STATE_UNPACKED\<rparr>) \<and>
   unpack_loop ok_collab (trans_one [] True)
       [(mkpkg ''a'' ''1'')\<lparr>state := Some XBPS_PKG_STATE_UNPACKED\<rparr>, mkpkg ''foo'' ''1.0'']
       False False [] =
     (None,
      [(mkpkg ''a'' ''1'')\<lparr>state := Some XBPS_PKG_STATE_UNPACKED\<rparr>,
       (mkpkg ''foo'' ''1.0'')\<lparr>state := Some XBPS_PKG_STATE_UNPACKED\<rparr>],
      [EvUnpack (mkpkg ''foo'' ''1.0'') False 0,
       EvRegister (mkpkg ''foo'' ''1.0'') True 0,
       EvSetState (mkpkg ''foo'' ''1.0'') XBPS_PKG_STATE_UNPACKED 0]) \<and>
   registered
      [EvUnpack (mkpkg ''foo'' ''1.0'') False 0,
       EvRegister (mkpkg ''foo'' ''1.0'') True 0,
       EvSetState (mkpkg ''foo'' ''1.0'') XBPS_PKG_STATE_UNPACKED 0] =
     [(mkpkg ''foo'' ''1.0'', True)] \<and>
   find not_unpacked [mkpkg ''foo'' ''1.0''] = Some (mkpkg ''foo'' ''1.0'')"
proof -
  let ?a = "(mkpkg ''a'' ''1'')\<lparr>state := Some XBPS_PKG_STATE_UNPACKED\<rparr>"
  let ?evs = "[EvUnpack (mkpkg ''foo'' ''1.0'') False 0,
       EvRegister (mkpkg ''foo'' ''1.0'') True 0,
       EvSetState (mkpkg ''foo'' ''1.0'') XBPS_PKG_STATE_UNPACKED 0]"
  have t: "trans_type (trans_one [] True) = TRANS_ONE"
    and o: "originpkgname (trans_one [] True) = Some ''foo''"
    by (simp_all add: trans_one_def)
  have n: "pkgname ?a \<noteq> ''foo''" by (simp add: mkpkg_def)
  have s: "\<not> not_unpacked ?a" by (simp add: not_unpacked_def)
  have run: "unpack_loop ok_collab (trans_one [] True) [?a, mkpkg ''foo'' ''1.0''] False False [] =
     (None, [?a, (mkpkg ''foo'' ''1.0'')\<lparr>state := Some XBPS_PKG_STATE_UNPACKED\<rparr>], ?evs)"
    by (simp add: run_defs)
  have g: "registered ?evs = (mkpkg ''foo'' ''1.0'', True) # []" by simp
  from skipped_dependency_marks_next[OF t o n s run g]
  have "find not_unpacked [mkpkg ''foo'' ''1.0''] = Some (mkpkg ''foo'' ''1.0'')" by simp
  with t o n s run g show ?thesis by simp
qed

subsection \<open>C10: the user declines\<close>

text \<open>
  C10. When \<open>force\<close> is not set and the prompt answers no, \<open>exec_transaction\<close>
  returns 0 with the packages as they were, and the prompt is its last call: only the
  calls of the summary come before it, so no hash is checked and nothing is removed,
  unpacked, registered or configured. Both entry points pass the 0 to \<open>cleanup\<close>: a run
  of either in which the prompt was answered no ends with exit status
  \<open>EXIT_SUCCESS\<close>, which is 0, and made no call of the hash check or of a later phase.
\<close>

theorem declined_exits_successfully:
  "(show_transaction_sizes c (iter tx)
      (if trans_type tx = TRANS_ALL then ''updated'' else ''installed'') h = (0, evs1) \<and>
    force tx = False \<and> xbps_noyes c (h @ evs1) = False \<longrightarrow>
      exec_transaction c tx h = (Inr 0, iter tx, evs1 @ [EvNoYes False]) \<and>
      (\<forall>e\<in>set evs1. phase_of e = 0)) \<and>
   (xbps_install_pkg c pkg force' update' = (st, evs) \<and> EvNoYes False \<in> set evs \<longrightarrow>
      st = Inr EXIT_SUCCESS \<and> (\<forall>e\<in>set evs. phase_of e < 2)) \<and>
   (xbps_autoupdate_pkgs c force' = (st', evs') \<and> EvNoYes False \<in> set evs' \<longrightarrow>
      st' = Inr EXIT_SUCCESS \<and> (\<forall>e\<in>set evs'. phase_of e < 2)) \<and>
   EXIT_SUCCESS = 0"
proof -
  have a: "show_transaction_sizes c (iter tx)
      (if trans_type tx = TRANS_ALL then ''updated'' else ''installed'') h = (0, evs1) \<and>
    force tx = False \<and> xbps_noyes c (h @ evs1) = False \<longrightarrow>
      exec_transaction c tx h = (Inr 0, iter tx, evs1 @ [EvNoYes False]) \<and>
      (\<forall>e\<in>set evs1. phase_of e = 0)"
  proof
    assume A: "show_transaction_sizes c (iter tx)
      (if trans_type tx = TRANS_ALL then ''updated'' else ''installed'') h = (0, evs1) \<and>
      force tx = False \<and> xbps_noyes c (h @ evs1) = False"
    then have "exec_transaction c tx h = (Inr 0, iter tx, evs1 @ [EvNoYes False])"
      by (simp add: exec_transaction_def)
    moreover have "\<forall>e\<in>set evs1. phase_of e = 0"
      using A show_transaction_sizes_calls by blast
    ultimately show "exec_transaction c tx h = (Inr 0, iter tx, evs1 @ [EvNoYes False]) \<and>
      (\<forall>e\<in>set evs1. phase_of e = 0)" by simp
  qed
  have b: "xbps_install_pkg c pkg force' update' = (st, evs) \<and> EvNoYes False \<in> set evs \<longrightarrow>
      st = Inr EXIT_SUCCESS \<and> (\<forall>e\<in>set evs. phase_of e < 2)"
  proof
    assume B: "xbps_install_pkg c pkg force' update' = (st, evs) \<and> EvNoYes False \<in> set evs"
    then have "evs \<noteq> []" by auto
    with B xbps_install_pkg_run[of c pkg force' update' st evs]
    obtain tx' r objs' where run: "exec_transaction c tx' [] = (r, objs', evs)"
      and st: "r = Inr 0 \<longrightarrow> st = Inr EXIT_SUCCESS"
      by auto
    from exec_transaction_declined[OF run] B st
    show "st = Inr EXIT_SUCCESS \<and> (\<forall>e\<in>set evs. phase_of e < 2)"
      by simp
  qed
  have c: "xbps_autoupdate_pkgs c force' = (st', evs') \<and> EvNoYes False \<in> set evs' \<longrightarrow>
      st' = Inr EXIT_SUCCESS \<and> (\<forall>e\<in>set evs'. phase_of e < 2)"
  proof
    assume C: "xbps_autoupdate_pkgs c force' = (st', evs') \<and> EvNoYes False \<in> set evs'"
    then have "evs' \<noteq> []" by auto
    with C xbps_autoupdate_pkgs_run[of c force' st' evs']
    obtain tx' r objs' where run: "exec_transaction c tx' [] = (r, objs', evs')"
      and st: "r = Inr 0 \<longrightarrow> st' = Inr EXIT_SUCCESS"
      by auto
    from exec_transaction_declined[OF run] C st
    show "st' = Inr EXIT_SUCCESS \<and> (\<forall>e\<in>set evs'. phase_of e < 2)"
      by simp
  qed
  from a b c show ?thesis by (simp add: EXIT_SUCCESS_def)
qed

text \<open>
  The theorem for the collaborators under which the user answers no: the installation
  of "foo" and the update of all packages both stop at the prompt and exit with 0.
\<close>

theorem declined_exits_successfully_witness:
  "show_transaction_sizes declining_collab (iter (trans_one [mkpkg ''foo'' ''1.0''] False))
      ''installed'' [] =
     (0, [EvPkgList ''installed'' ''  foo-1.0 '', EvHumanize 100 0, EvHumanize 300 0]) \<and>
   force (trans_one [mkpkg ''foo'' ''1.0''] False) = False \<and>
   xbps_noyes declining_collab
     [EvPkgList ''installed'' ''  foo-1.0 '', EvHumanize 100 0, EvHumanize 300 0] = False \<and>
   exec_transaction declining_collab (trans_one [mkpkg ''foo'' ''1.0''] False) [] =
     (Inr 0, [mkpkg ''foo'' ''1.0''],
      [EvPkgList ''installed'' ''  foo-1.0 '', EvHumanize 100 0, EvHumanize 300 0,
       EvNoYes False]) \<and>
   xbps_install_pkg declining_collab ''foo'' False False =
     (Inr EXIT_SUCCESS,
      [EvPkgList ''installed'' ''  foo-1.0 '', EvHumanize 100 0, EvHumanize 300 0,
       EvNoYes False]) \<and>
   xbps_autoupdate_pkgs declining_collab False =
     (Inr EXIT_SUCCESS,
      [EvPkgList ''updated'' ''  foo-1.0 '', EvHumanize 100 0, EvHumanize 300 0,
       EvNoYes False]) \<and>
   EXIT_SUCCESS = 0"
proof -
  have s: "show_transaction_sizes declining_collab
      (iter (trans_one [mkpkg ''foo'' ''1.0''] False))
      (if trans_type (trans_one [mkpkg ''foo'' ''1.0''] False) = TRANS_ALL
       then ''updated'' else ''installed'') [] =
     (0, [EvPkgList ''installed'' ''  foo-1.0 '', EvHumanize 100 0, EvHumanize 300 0])"
    by (simp add: run_defs declining_collab_def)
  have f: "force (trans_one [mkpkg ''foo'' ''1.0''] False) = False"
    by (simp add: trans_one_def)
  have n: "xbps_noyes declining_collab
     ([] @ [EvPkgList ''installed'' ''  foo-1.0 '', EvHumanize 100 0, EvHumanize 300 0]) = False"
    by (simp add: declining_collab_def)
  have i: "xbps_install_pkg declining_collab ''foo'' False False =
     (Inr EXIT_SUCCESS,
      [EvPkgList ''installed'' ''  foo-1.0 '', EvHumanize 100 0, EvHumanize 300 0,
       EvNoYes False])"
    by (simp add: xbps_install_pkg_def install_pkg_prepare_def cleanup_def run_defs
        declining_collab_def foo_props_def)
  have u: "xbps_autoupdate_pkgs declining_collab False =
     (Inr EXIT_SUCCESS,
      [EvPkgList ''updated'' ''  foo-1.0 '', EvHumanize 100 0, EvHumanize 300 0,
       EvNoYes False])"
    by (simp add: xbps_autoupdate_pkgs_def cleanup_def run_defs
        declining_collab_def foo_props_def)
  from declined_exits_successfully[of declining_collab
      "trans_one [mkpkg ''foo'' ''1.0''] False" "[]"
      "[EvPkgList ''installed'' ''  foo-1.0 '', EvHumanize 100 0, EvHumanize 300 0]"
      "''foo''" False False "Inr EXIT_SUCCESS"
      "[EvPkgList ''installed'' ''  foo-1.0 '', EvHumanize 100 0, EvHumanize 300 0,
        EvNoYes False]"
      "Inr EXIT_SUCCESS"
      "[EvPkgList ''updated'' ''  foo-1.0 '', EvHumanize 100 0, EvHumanize 300 0,
        EvNoYes False]"]
    s f n i u
  show ?thesis by (simp add: trans_one_def)
qed

end
